theory Spec2Isabelle
  imports Main "HOL-Library.Char_ord" "HOL-Library.List_Lexorder"
begin

section \<open>The meeting feed loader of \<^verbatim>\<open>src/helpers/data.ts\<close>\<close>

text \<open>
  The module exports one function, \<^verbatim>\<open>load\<close>, which turns the JSON of a spreadsheet
  feed into the application state. This theory embeds \<^verbatim>\<open>load\<close> and its helpers
  (\<^verbatim>\<open>arrayToTagsArray\<close>, \<^verbatim>\<open>stringToTrimmedArray\<close>, \<^verbatim>\<open>validateEmail\<close>,
  \<^verbatim>\<open>warn\<close>) as HOL functions.

  Text is an Isabelle \<open>string\<close>. The string operations of the JavaScript runtime that the
  module calls are written out below on such strings, but for \<^verbatim>\<open>toLowerCase\<close>, which maps
  every cased letter of Unicode and is taken from outside, as the library functions are.
  The operations written out are exact on ASCII text; a character beyond ASCII stands here
  as the bytes of its UTF-8 encoding, which they leave alone.
\<close>

subsection \<open>String operations of the runtime\<close>

text \<open>The white space and line terminators that \<^verbatim>\<open>trim\<close> and \<^verbatim>\<open>\s\<close> know, within ASCII:
  tab, line feed, vertical tab, form feed, carriage return and space. The runtime's class
  also has white space beyond ASCII (U+00A0, U+FEFF, U+2028 and others), which \<open>trim\<close>
  below does not strip. The statements about rows are about the texts after trimming,
  whichever characters that strips.\<close>

definition isWhiteSpace :: "char \<Rightarrow> bool" where
  "isWhiteSpace c = (c \<in> set [CHR 0x09, CHR 0x0A, CHR 0x0B, CHR 0x0C, CHR 0x0D, CHR '' ''])"

text \<open>\<^verbatim>\<open>s.trim()\<close>\<close>

definition trim :: "string \<Rightarrow> string" where
  "trim s = rev (dropWhile isWhiteSpace (rev (dropWhile isWhiteSpace s)))"

text \<open>\<^verbatim>\<open>s.split(sep)\<close> for a separator of one character, the only kind the module uses:
  the pieces between the separators, empty pieces kept; the empty string gives one
  empty piece.\<close>

fun split :: "char \<Rightarrow> string \<Rightarrow> string list" where
  "split sep [] = [[]]"
| "split sep (c # cs) =
     (if c = sep then [] # split sep cs
      else (case split sep cs of [] \<Rightarrow> [[c]] | p # ps \<Rightarrow> (c # p) # ps))"

text \<open>\<^verbatim>\<open>xs.join(sep)\<close>\<close>

fun join :: "string \<Rightarrow> string list \<Rightarrow> string" where
  "join sep [] = []"
| "join sep [x] = x"
| "join sep (x # y # ys) = x @ sep @ join sep (y # ys)"

text \<open>The character class \<^verbatim>\<open>\d\<close>; \<^verbatim>\<open>\D\<close> is its complement.\<close>

definition isDigit :: "char \<Rightarrow> bool" where
  "isDigit c = (c \<in> set ''0123456789'')"

text \<open>\<^verbatim>\<open>host.endsWith(domain)\<close>\<close>

definition endsWith :: "string \<Rightarrow> string \<Rightarrow> bool" where
  "endsWith s suffix =
     (length suffix \<le> length s \<and> drop (length s - length suffix) s = suffix)"

text \<open>\<^verbatim>\<open>s.replace(pattern, replacement)\<close> with a string pattern: the first occurrence
  of the pattern, wherever it stands, is replaced; a string without the pattern is
  returned as it is.\<close>

fun replace :: "string \<Rightarrow> string \<Rightarrow> string \<Rightarrow> string" where
  "replace pattern replacement [] = (if pattern = [] then replacement else [])"
| "replace pattern replacement (c # cs) =
     (if take (length pattern) (c # cs) = pattern
      then replacement @ drop (length pattern) (c # cs)
      else c # replace pattern replacement cs)"

text \<open>A number in a template literal: the decimal digits of a natural number.\<close>

fun toString :: "nat \<Rightarrow> string" where
  "toString n =
     (if n < 10 then [''0123456789'' ! n]
      else toString (n div 10) @ [''0123456789'' ! (n mod 10)])"

declare toString.simps [simp del]

subsection \<open>Helpers of the module\<close>

text \<open>
  \<^verbatim>\<open>function stringToTrimmedArray(str: string, sep = ','): string[]\<close>;
  the separator is written at every call here.
\<close>

definition stringToTrimmedArray :: "string \<Rightarrow> char \<Rightarrow> string list" where
  "stringToTrimmedArray str sep = filter (\<lambda>val. val \<noteq> []) (map trim (split sep str))"

text \<open>
  \<^verbatim>\<open>function warn(value, type, line)\<close> writes one line to the console. The value stands
  between the typographic quotation marks U+201C and U+201D, here in their UTF-8
  encoding.
\<close>

definition ldquo :: string where
  "ldquo = [CHR 0xE2, CHR 0x80, CHR 0x9C]"

definition rdquo :: string where
  "rdquo = [CHR 0xE2, CHR 0x80, CHR 0x9D]"

definition warn :: "string \<Rightarrow> string \<Rightarrow> nat \<Rightarrow> string" where
  "warn v type line =
     ''Row '' @ toString (line + 2) @ '': '' @ ldquo @ v @ rdquo @ '' is not a valid '' @ type @ ''.''"

text \<open>
  \<^verbatim>\<open>function validateEmail(email: string)\<close> tests the address against one regular
  expression, \<^verbatim>\<open>^(LOCAL)@(DOMAIN)$\<close>. No character of a domain is an at sign, so the
  at sign of a match is the last one of the address. The local part is either atoms
  joined by dots, an atom being one or more characters other than
  \<^verbatim>\<open><>()[]\.,;:@"\<close> and white space, or any text of at least one character, without a
  line break, between double quotes. The domain is either four groups of one to three
  digits joined by dots, in square brackets, or at least one label of letters, digits
  and hyphens, each followed by a dot, then at least two letters.
\<close>

definition isLetter :: "char \<Rightarrow> bool" where
  "isLetter c = (c \<in> set ''abcdefghijklmnopqrstuvwxyzABCDEFGHIJKLMNOPQRSTUVWXYZ'')"

definition atomChar :: "char \<Rightarrow> bool" where
  "atomChar c = (c \<notin> set (''<>()[].,;:@'' @ [CHR 0x5C, CHR 0x22]) \<and> \<not> isWhiteSpace c)"

definition labelChar :: "char \<Rightarrow> bool" where
  "labelChar c = (isLetter c \<or> c = CHR ''-'' \<or> isDigit c)"

definition atoms :: "string \<Rightarrow> bool" where
  "atoms l = list_all (\<lambda>a. a \<noteq> [] \<and> list_all atomChar a) (split CHR ''.'' l)"

definition quoted :: "string \<Rightarrow> bool" where
  "quoted l =
     (case l of
        [] \<Rightarrow> False
      | q # rest \<Rightarrow>
          q = CHR 0x22 \<and> rest \<noteq> [] \<and> last rest = CHR 0x22 \<and> butlast rest \<noteq> [] \<and>
          list_all (\<lambda>c. c \<noteq> CHR 0x0A \<and> c \<noteq> CHR 0x0D) (butlast rest))"

definition addressLiteral :: "string \<Rightarrow> bool" where
  "addressLiteral d =
     (case d of
        [] \<Rightarrow> False
      | b # rest \<Rightarrow>
          b = CHR ''['' \<and> rest \<noteq> [] \<and> last rest = CHR '']'' \<and>
          (let groups = split CHR ''.'' (butlast rest)
           in length groups = 4 \<and>
              list_all (\<lambda>g. 1 \<le> length g \<and> length g \<le> 3 \<and> list_all isDigit g) groups))"

definition hostName :: "string \<Rightarrow> bool" where
  "hostName d =
     (let labels = split CHR ''.'' d
      in 2 \<le> length labels \<and>
         list_all (\<lambda>l. l \<noteq> [] \<and> list_all labelChar l) (butlast labels) \<and>
         2 \<le> length (last labels) \<and> list_all isLetter (last labels))"

definition validateEmail :: "string \<Rightarrow> bool" where
  "validateEmail email =
     (CHR ''@'' \<in> set email \<and>
      (let domain = rev (takeWhile (\<lambda>c. c \<noteq> CHR ''@'') (rev email));
           localPart = rev (drop 1 (dropWhile (\<lambda>c. c \<noteq> CHR ''@'') (rev email)))
       in (atoms localPart \<or> quoted localPart) \<and> (addressLiteral domain \<or> hostName domain)))"

text \<open>\<^verbatim>\<open>function arrayToTagsArray(array: string[], values: string[]): Tag[]\<close>\<close>

record Tag =
  tag :: string
  checked :: bool

definition arrayToTagsArray :: "string list \<Rightarrow> string list \<Rightarrow> Tag list" where
  "arrayToTagsArray array values = map (\<lambda>t. \<lparr>tag = t, checked = (t \<in> set values)\<rparr>) array"

subsection \<open>Data\<close>

text \<open>
  A button of a meeting. The source's property \<^verbatim>\<open>text\<close> is the field \<open>label\<close> here (the
  source's local variable for it). The handler \<^verbatim>\<open>onClick\<close> is a closure that calls
  \<^verbatim>\<open>window.open\<close>; it is kept as the arguments of that call.
\<close>

datatype Icon = Link | Video | Phone | Email

datatype Handler = WindowOpen string "string option"

record Button =
  icon :: Icon
  onClick :: Handler
  label :: string
  title :: string

text \<open>
  \<^verbatim>\<open>Meeting\<close> (declared in \<^verbatim>\<open>components/Meeting\<close>), with the fields \<^verbatim>\<open>load\<close> gives it.
  \<open>updated\<close> is read without a method call on it, so it may be undefined (\<open>None\<close>).
  \<open>time\<close> is the optional moment of the meeting; \<open>'t\<close> is the type of moments.
\<close>

record 't Meeting =
  name :: string
  buttons :: "Button list"
  "notes" :: "string list"
  updated :: "string option"
  search :: string
  tags :: "string list"
  time :: "'t option"

text \<open>
  \<^verbatim>\<open>State\<close>. \<open>filters\<close> is an object keyed by strings, a map here. The field \<^verbatim>\<open>search\<close> of
  the source is \<open>state_search\<close> here (\<open>search\<close> is the field of a meeting).
\<close>

record 't State =
  filters :: "string \<rightharpoonup> Tag list"
  limit :: int
  loading :: bool
  meetings :: "'t Meeting list"
  state_search :: "string list"
  timezone :: string

text \<open>
  What \<^verbatim>\<open>load\<close> takes from outside the module:
  \<^item> the constants \<^verbatim>\<open>days\<close>, \<^verbatim>\<open>meetingsPerPage\<close> and \<^verbatim>\<open>videoServices\<close> of \<^verbatim>\<open>./config\<close>;
    \<^verbatim>\<open>videoServices\<close> is an object from service names to lists of domains, here the
    list of its (name, domains) pairs in the order of \<^verbatim>\<open>Object.keys\<close>;
  \<^item> \<^verbatim>\<open>new URL(s).hostname\<close>, \<open>None\<close> when the constructor throws;
  \<^item> \<^verbatim>\<open>s.toLowerCase()\<close> of the runtime;
  \<^item> \<^verbatim>\<open>moment.tz(s, 'dddd h:mm a', zone)\<close>, \<open>None\<close> when the moment is not valid. The
    module loads the Italian locale of the library (line 2), so the names of the days in
    an expression are the Italian ones: an English name does not parse. Within
    one call of \<^verbatim>\<open>load\<close> the moment depends on the text and the zone only (the clock that
    the library reads for the current week does not move during the call);
  \<^item> \<^verbatim>\<open>decodeURIComponent(s)\<close>, \<open>None\<close> when it throws a URIError;
  \<^item> \<^verbatim>\<open>window.location.search\<close> and \<^verbatim>\<open>moment.tz.guess()\<close>.
\<close>

record 't Env =
  days :: "string list"
  meetingsPerPage :: int
  videoServices :: "(string \<times> string list) list"
  hostname :: "string \<Rightarrow> string option"
  moment_tz :: "string \<Rightarrow> string \<Rightarrow> 't option"
  decodeURIComponent :: "string \<Rightarrow> string option"
  toLowerCase :: "string \<Rightarrow> string"
  location_search :: string
  tz_guess :: string

text \<open>
  The errors \<^verbatim>\<open>load\<close> can throw: a TypeError from reading a property of, or calling a
  method on, \<^verbatim>\<open>undefined\<close>; a URIError from \<^verbatim>\<open>decodeURIComponent\<close>.
\<close>

datatype error = TypeError | URIError

text \<open>
  An entry of \<^verbatim>\<open>data.feed.entry\<close>: an object from column names to cells, a cell being an
  object whose property \<^verbatim>\<open>$t\<close> is the text. \<open>e k = None\<close>: the entry has no property \<open>k\<close>;
  \<open>e k = Some None\<close>: the cell has no \<^verbatim>\<open>$t\<close>; \<open>e k = Some (Some s)\<close>: the text is \<open>s\<close>.
\<close>

type_synonym entry = "string \<rightharpoonup> string option"

text \<open>\<^verbatim>\<open>entry[k]['$t']\<close>: throws when the entry has no property \<open>k\<close>.\<close>

definition cell :: "entry \<Rightarrow> string \<Rightarrow> error + string option" where
  "cell e k = (case e k of None \<Rightarrow> Inl TypeError | Some t \<Rightarrow> Inr t)"

text \<open>\<^verbatim>\<open>entry[k]['$t'].trim()\<close>: throws also when the text is undefined.\<close>

definition cell_trim :: "entry \<Rightarrow> string \<Rightarrow> error + string" where
  "cell_trim e k =
     (case cell e k of
        Inl err \<Rightarrow> Inl err
      | Inr None \<Rightarrow> Inl TypeError
      | Inr (Some s) \<Rightarrow> Inr (trim s))"

text \<open>\<^verbatim>\<open>stringToTrimmedArray(entry[k]['$t'], sep)\<close>: throws as \<^verbatim>\<open>trim\<close> does, at \<^verbatim>\<open>str.split\<close>.\<close>

definition cell_array :: "entry \<Rightarrow> string \<Rightarrow> char \<Rightarrow> error + string list" where
  "cell_array e k sep =
     (case cell e k of
        Inl err \<Rightarrow> Inl err
      | Inr None \<Rightarrow> Inl TypeError
      | Inr (Some s) \<Rightarrow> Inr (stringToTrimmedArray s sep))"

subsection \<open>The body of the loop over the entries\<close>

text \<open>
  The URL of a row (lines 36 to 66), from the trimmed text of the column: the buttons it
  adds and the lines it writes to the console. An empty URL adds nothing. A URL that
  \<^verbatim>\<open>new URL\<close> refuses is caught and warned about. Otherwise the services of which some
  domain ends the host name are filtered out of the keys of \<^verbatim>\<open>videoServices\<close>; the first
  of them, if there is one, is the label.
\<close>

definition handle_url :: "'t Env \<Rightarrow> nat \<Rightarrow> string \<Rightarrow> Button list \<times> string list" where
  "handle_url env i originalUrl =
     (if originalUrl = [] then ([], [])
      else
        (case hostname env originalUrl of
           None \<Rightarrow> ([], [warn originalUrl ''URL'' i])
         | Some host \<Rightarrow>
             (let service =
                    map fst
                      (filter (\<lambda>(service, domains). filter (\<lambda>domain. endsWith host domain) domains \<noteq> [])
                         (videoServices env));
                  (lbl, icn) =
                    (if service \<noteq> [] then (hd service, Video)
                     else (replace ''www.'' [] host, Link))
              in ([\<lparr>icon = icn,
                     onClick = WindowOpen originalUrl (Some ''_blank''),
                     label = lbl,
                     title = ''Visita '' @ originalUrl\<rparr>],
                  []))))"

text \<open>
  The phone number of a row (lines 68 to 88), from the trimmed text of the column. The
  access code is read, and can throw, only when more than eight digits are left.
\<close>

definition handle_phone :: "nat \<Rightarrow> entry \<Rightarrow> string \<Rightarrow> error + Button list \<times> string list" where
  "handle_phone i e originalPhone =
     (if originalPhone = [] then Inr ([], [])
      else
        (let phone = filter isDigit originalPhone
         in if length phone > 8 then
              (case cell_trim e ''gsx$accesscode'' of
                 Inl err \<Rightarrow> Inl err
               | Inr accessCode \<Rightarrow>
                   (let phone' = (if accessCode \<noteq> [] then phone @ '',,'' @ accessCode else phone)
                    in Inr ([\<lparr>icon = Phone,
                               onClick = WindowOpen (''tel:'' @ phone') None,
                               label = ''Telefono'',
                               title = ''Chiama '' @ phone'\<rparr>],
                            [])))
            else Inr ([], [warn originalPhone ''phone number'' i])))"

text \<open>The email address of a row (lines 90 to 105), from the trimmed text of the column.\<close>

definition handle_email :: "nat \<Rightarrow> string \<Rightarrow> Button list \<times> string list" where
  "handle_email i email =
     (if email = [] then ([], [])
      else if validateEmail email then
        ([\<lparr>icon = Email,
           onClick = WindowOpen (''mailto:'' @ email) None,
           label = ''Email'',
           title = ''Email '' @ email\<rparr>],
         [])
      else ([], [warn email ''email address'' i]))"

text \<open>The search index of a meeting (lines 137 to 142), from its name.\<close>

definition search_index :: "'t Env \<Rightarrow> string \<Rightarrow> string" where
  "search_index env nm =
     join '' '' (filter (\<lambda>e. e \<noteq> []) (split CHR '' '' (toLowerCase env nm)))"

text \<open>
  \<^verbatim>\<open>times.forEach(timestring => ...)\<close> (lines 155 to 165): the clones of the meeting it
  pushes and the lines it writes to the console, both in the order of the time strings.
\<close>

fun each_time ::
  "'t Env \<Rightarrow> nat \<Rightarrow> 't Meeting \<Rightarrow> string \<Rightarrow> string list \<Rightarrow> 't Meeting list \<times> string list" where
  "each_time env i meeting zone [] = ([], [])"
| "each_time env i meeting zone (timestring # rest) =
     (let (pushed, warned) = each_time env i meeting zone rest
      in (case moment_tz env timestring zone of
            Some t \<Rightarrow> (meeting\<lparr>time := Some t\<rparr> # pushed, warned)
          | None \<Rightarrow> (pushed, warn timestring ''time'' i # warned)))"

text \<open>
  What one pass of the loop body (lines 27 to 169) gives for entry \<open>i\<close>: the meetings it
  pushes, and the format and type tokens of the row, which the loop adds to its
  accumulators.
\<close>

record 't Row =
  pushed_meetings :: "'t Meeting list"
  meeting_formats :: "string list"
  meeting_types :: "string list"

text \<open>
  A read of a column that can throw: when it throws, the pass ends with the error, and
  the lines \<open>ws\<close> written to the console before it stay written.
\<close>

definition reading ::
  "string list \<Rightarrow> error + 'a \<Rightarrow> ('a \<Rightarrow> string list \<times> (error + 'b)) \<Rightarrow> string list \<times> (error + 'b)" where
  "reading ws r continue = (case r of Inl err \<Rightarrow> (ws, Inl err) | Inr x \<Rightarrow> continue x)"

text \<open>
  The pass itself, in the order of the source. The result is the console lines of the
  pass and either the error thrown or the row.
\<close>

definition row :: "'t Env \<Rightarrow> nat \<Rightarrow> entry \<Rightarrow> string list \<times> (error + 't Row)" where
  "row env i e =
     reading [] (cell_trim e ''gsx$name'') (\<lambda>nm.
     reading [] (cell_array e ''gsx$notes'' CHR 0x0A) (\<lambda>nts.
     reading [] (cell e ''updated'') (\<lambda>upd.
     reading [] (cell_trim e ''gsx$url'') (\<lambda>originalUrl.
     let (b1, w1) = handle_url env i originalUrl in
     reading w1 (cell_trim e ''gsx$phone'') (\<lambda>originalPhone.
     reading w1 (handle_phone i e originalPhone) (\<lambda>(b2, w2).
     reading (w1 @ w2) (cell_trim e ''gsx$email'') (\<lambda>email.
     let (b3, w3) = handle_email i email in
     reading (w1 @ w2 @ w3) (cell_array e ''gsx$formats'' CHR '','') (\<lambda>fs.
     reading (w1 @ w2 @ w3) (cell_array e ''gsx$types'' CHR '','') (\<lambda>ts.
     reading (w1 @ w2 @ w3) (cell_trim e ''gsx$timezone'') (\<lambda>zone.
     reading (w1 @ w2 @ w3) (cell_array e ''gsx$times'' CHR 0x0A) (\<lambda>times.
     let meeting = \<lparr>name = nm, buttons = b1 @ b2 @ b3, notes = nts, updated = upd,
                     search = search_index env nm, tags = fs @ ts, time = None\<rparr>
     in if times \<noteq> [] then
          (let (pushed, w4) = each_time env i meeting zone times
           in (w1 @ w2 @ w3 @ w4,
               Inr \<lparr>pushed_meetings = pushed, meeting_formats = fs, meeting_types = ts\<rparr>))
        else
          (w1 @ w2 @ w3,
           Inr \<lparr>pushed_meetings = [meeting], meeting_formats = fs, meeting_types = ts\<rparr>))))))))))))"

text \<open>
  \<^verbatim>\<open>tokens.forEach(t => { if (!list.includes(t)) list.push(t) })\<close> (lines 113 to 117 and
  128 to 132).
\<close>

fun push_new :: "string list \<Rightarrow> string list \<Rightarrow> string list" where
  "push_new list [] = list"
| "push_new list (t # tokens) = push_new (if t \<in> set list then list else list @ [t]) tokens"

text \<open>The variables of \<^verbatim>\<open>load\<close> that the loop changes, and the console.\<close>

record 't Vars =
  var_meetings :: "'t Meeting list"
  var_formats :: "string list"
  var_types :: "string list"
  console :: "string list"

text \<open>
  The loop (line 26) from index \<open>i\<close> over the entries left. It ends with the error of the
  first pass that throws, if one does.
\<close>

fun loop :: "'t Env \<Rightarrow> nat \<Rightarrow> entry list \<Rightarrow> 't Vars \<Rightarrow> 't Vars \<times> error option" where
  "loop env i [] vars = (vars, None)"
| "loop env i (e # es) vars =
     (case row env i e of
        (ws, Inl err) \<Rightarrow> (vars\<lparr>console := console vars @ ws\<rparr>, Some err)
      | (ws, Inr r) \<Rightarrow>
          loop env (Suc i) es
            \<lparr>var_meetings = var_meetings vars @ pushed_meetings r,
             var_formats = push_new (var_formats vars) (meeting_formats r),
             var_types = push_new (var_types vars) (meeting_types r),
             console = console vars @ ws\<rparr>)"

subsection \<open>The query string and the state\<close>

text \<open>\<^verbatim>\<open>items.map(decodeURIComponent)\<close>: the first item that cannot be decoded throws.\<close>

fun decode_all :: "(string \<Rightarrow> string option) \<Rightarrow> string list \<Rightarrow> error + string list" where
  "decode_all dec [] = Inr []"
| "decode_all dec (x # xs) =
     (case dec x of
        None \<Rightarrow> Inl URIError
      | Some y \<Rightarrow> (case decode_all dec xs of Inl err \<Rightarrow> Inl err | Inr ys \<Rightarrow> Inr (y # ys)))"

text \<open>
  \<^verbatim>\<open>pairs.forEach(pair => { const [key, value] = pair.split('='); query[key] = ... })\<close>
  (lines 182 to 185). A pair without an equals sign leaves \<^verbatim>\<open>value\<close> undefined, and
  \<^verbatim>\<open>value.split\<close> throws.
\<close>

fun each_pair ::
  "(string \<Rightarrow> string option) \<Rightarrow> string list \<Rightarrow> (string \<rightharpoonup> string list) \<Rightarrow>
     error + (string \<rightharpoonup> string list)" where
  "each_pair dec [] query = Inr query"
| "each_pair dec (pair # pairs) query =
     (case split CHR ''='' pair of
        key # val # _ \<Rightarrow>
          (case decode_all dec (split CHR '','' val) of
             Inl err \<Rightarrow> Inl err
           | Inr vals \<Rightarrow> each_pair dec pairs (query(key \<mapsto> vals)))
      | _ \<Rightarrow> Inl TypeError)"

text \<open>The query (lines 176 to 186), read from \<^verbatim>\<open>window.location.search\<close>.\<close>

definition read_query :: "'t Env \<Rightarrow> error + (string \<rightharpoonup> string list)" where
  "read_query env =
     (if length (location_search env) > 1
      then each_pair (decodeURIComponent env) (split CHR ''&'' (drop 1 (location_search env))) Map.empty
      else Inr Map.empty)"

text \<open>\<^verbatim>\<open>query.key || []\<close>\<close>

definition preselected :: "(string \<rightharpoonup> string list) \<Rightarrow> string \<Rightarrow> string list" where
  "preselected query key = (case query key of None \<Rightarrow> [] | Some vals \<Rightarrow> vals)"

text \<open>
  \<^verbatim>\<open>export function load(data: any): State\<close>, on the entries \<^verbatim>\<open>data.feed.entry\<close>: the lines
  written to the console, and the error thrown or the state returned. \<^verbatim>\<open>sort()\<close> without
  a comparison function orders strings by their code units.
\<close>

definition load :: "'t Env \<Rightarrow> entry list \<Rightarrow> string list \<times> (error + 't State)" where
  "load env entries =
     (case loop env 0 entries
             \<lparr>var_meetings = [], var_formats = [], var_types = [], console = []\<rparr> of
        (vars, Some err) \<Rightarrow> (console vars, Inl err)
      | (vars, None) \<Rightarrow>
          (case read_query env of
             Inl err \<Rightarrow> (console vars, Inl err)
           | Inr query \<Rightarrow>
               (console vars,
                Inr \<lparr>filters =
                       [''days'' \<mapsto> arrayToTagsArray (days env) (preselected query ''days''),
                        ''formats'' \<mapsto>
                          arrayToTagsArray (sort (var_formats vars)) (preselected query ''formats''),
                        ''types'' \<mapsto>
                          arrayToTagsArray (sort (var_types vars)) (preselected query ''types'')],
                     limit = meetingsPerPage env,
                     loading = False,
                     meetings = var_meetings vars,
                     state_search = [],
                     timezone = tz_guess env\<rparr>)))"

subsection \<open>Feeds with every column\<close>

text \<open>
  The columns \<^verbatim>\<open>load\<close> reads from an entry. An entry is well formed when each of them
  has a text.
\<close>

definition columns :: "string list" where
  "columns = [''gsx$name'', ''gsx$notes'', ''updated'', ''gsx$url'', ''gsx$phone'', ''gsx$accesscode'',
              ''gsx$email'', ''gsx$formats'', ''gsx$types'', ''gsx$timezone'', ''gsx$times'']"

definition has_text :: "entry \<Rightarrow> string \<Rightarrow> bool" where
  "has_text e k = (case e k of Some (Some s) \<Rightarrow> True | _ \<Rightarrow> False)"

definition well_formed :: "entry \<Rightarrow> bool" where
  "well_formed e = list_all (has_text e) columns"

subsection \<open>The words of the specification\<close>

text \<open>
  The search string as the specification words it: the name in lower case, split at
  white space, the empty pieces dropped, the rest joined by single spaces.
  \<open>split_where P\<close> splits a text at every character that satisfies \<open>P\<close>; \<open>white\<close> is the
  class of white-space characters and \<open>lower\<close> the lower-casing.
\<close>

fun split_where :: "(char \<Rightarrow> bool) \<Rightarrow> string \<Rightarrow> string list" where
  "split_where P [] = [[]]"
| "split_where P (c # cs) =
     (if P c then [] # split_where P cs
      else (case split_where P cs of [] \<Rightarrow> [[c]] | p # ps \<Rightarrow> (c # p) # ps))"

definition spec_search :: "(char \<Rightarrow> bool) \<Rightarrow> (string \<Rightarrow> string) \<Rightarrow> string \<Rightarrow> string" where
  "spec_search white lower nm = join '' '' (filter (\<lambda>w. w \<noteq> []) (split_where white (lower nm)))"

text \<open>A text has a double space when two neighbouring characters of it are spaces.\<close>

fun double_space :: "string \<Rightarrow> bool" where
  "double_space [] = False"
| "double_space [a] = False"
| "double_space (a # b # cs) = (a = CHR '' '' \<and> b = CHR '' '' \<or> double_space (b # cs))"

text \<open>The label as the specification words it: the host name without a leading \<^verbatim>\<open>www.\<close>\<close>

definition strip_leading_www :: "string \<Rightarrow> string" where
  "strip_leading_www host = (if take 4 host = ''www.'' then drop 4 host else host)"

subsection \<open>Sample inputs\<close>

text \<open>
  An environment for the examples. Its library and runtime functions stand for the real
  ones on the texts the examples use, and only there:
  \<^item> \<open>demo_hostname\<close> gives the host of a URL that starts with \<^verbatim>\<open>https://\<close> and refuses
    every other text;
  \<^item> \<open>demo_moment\<close> accepts two time expressions of the pattern \<^verbatim>\<open>dddd h:mm a\<close> with the
    Italian names of Sunday and Saturday, and refuses every other text (the examples
    use texts without a letter or a digit for those); the moment it gives is the pair of
    the expression and the zone;
  \<^item> \<open>demo_decode\<close> returns a text without a percent sign as it is, and refuses every
    other text;
  \<^item> \<open>demo_toLowerCase\<close> maps the letters A to Z to a to z and leaves every other
    character alone: the lower case of an ASCII text.
\<close>

definition demo_hostname :: "string \<Rightarrow> string option" where
  "demo_hostname s =
     (if take 8 s = ''https://'' \<and> drop 8 s \<noteq> []
      then Some (takeWhile (\<lambda>c. c \<noteq> CHR ''/'') (drop 8 s)) else None)"

definition demo_moment :: "string \<Rightarrow> string \<Rightarrow> (string \<times> string) option" where
  "demo_moment s zone =
     (if s \<in> set [''domenica 7:00 pm'', ''sabato 8:30 am'']
      then Some (s, zone) else None)"

definition demo_decode :: "string \<Rightarrow> string option" where
  "demo_decode s = (if CHR ''%'' \<in> set s then None else Some s)"

definition demo_toLowerCase_char :: "char \<Rightarrow> char" where
  "demo_toLowerCase_char c =
     (case map_of (zip ''ABCDEFGHIJKLMNOPQRSTUVWXYZ'' ''abcdefghijklmnopqrstuvwxyz'') c of
        None \<Rightarrow> c
      | Some l \<Rightarrow> l)"

definition demo_toLowerCase :: "string \<Rightarrow> string" where
  "demo_toLowerCase s = map demo_toLowerCase_char s"

text \<open>The environment, for a given \<^verbatim>\<open>window.location.search\<close>.\<close>

definition demo_env :: "string \<Rightarrow> (string \<times> string) Env" where
  "demo_env q =
     \<lparr>days = [''domenica'', ''sabato''],
      meetingsPerPage = 10,
      videoServices = [(''Skype'', [''skype.com'']), (''Zoom'', [''zoom.us'', ''zoom.com''])],
      hostname = demo_hostname,
      moment_tz = demo_moment,
      decodeURIComponent = demo_decode,
      toLowerCase = demo_toLowerCase,
      location_search = q,
      tz_guess = ''Europe/Rome''\<rparr>"

text \<open>An entry with every column, from the texts of the columns that are not empty.\<close>

definition demo_entry :: "(string \<times> string) list \<Rightarrow> entry" where
  "demo_entry cells k =
     (if k \<in> set columns
      then (case map_of cells k of Some s \<Rightarrow> Some (Some s) | None \<Rightarrow> Some (Some []))
      else None)"

text \<open>Rows for the expansion of the times: blank times; two expressions that do not
  parse; a valid expression, one that does not parse, and the valid one again.\<close>

definition ongoing_entry :: entry where
  "ongoing_entry = demo_entry [(''gsx$name'', ''Serenity''), (''gsx$times'', '' '')]"

definition unparsable_entry :: entry where
  "unparsable_entry =
     demo_entry [(''gsx$name'', ''Serenity''), (''gsx$timezone'', ''Europe/Rome''),
                 (''gsx$times'', ''!!!'' @ [CHR 0x0A] @ ''???'')]"

definition repeated_entry :: entry where
  "repeated_entry =
     demo_entry [(''gsx$name'', ''Serenity''), (''gsx$timezone'', ''Europe/Rome''),
                 (''gsx$times'', ''domenica 7:00 pm'' @ [CHR 0x0A] @ ''!!!'' @ [CHR 0x0A] @ ''domenica 7:00 pm'')]"

text \<open>The sample row with blank times, without its column \<^verbatim>\<open>gsx$name\<close>.\<close>

definition nameless_entry :: entry where
  "nameless_entry = ongoing_entry(''gsx$name'' := None)"

text \<open>A row whose formats and types share the token \<^verbatim>\<open>open\<close>.\<close>

definition tagged_entry :: entry where
  "tagged_entry = demo_entry [(''gsx$name'', ''Serenity''), (''gsx$formats'', ''open, speaker''),
                              (''gsx$types'', ''men, open'')]"

text \<open>A feed of two rows whose formats are, together, foo, baz and bar.\<close>

definition vocabulary_feed :: "entry list" where
  "vocabulary_feed = [demo_entry [(''gsx$formats'', ''foo, baz'')], demo_entry [(''gsx$formats'', ''bar, foo'')]]"

text \<open>Rows with a phone number of seven digits, and of ten digits with an access code.\<close>

definition short_phone_entry :: entry where
  "short_phone_entry = demo_entry [(''gsx$name'', ''Serenity''), (''gsx$phone'', ''555-1234'')]"

definition long_phone_entry :: entry where
  "long_phone_entry =
     demo_entry [(''gsx$name'', ''Serenity''), (''gsx$phone'', ''555-123-4567''),
                 (''gsx$accesscode'', ''9876'')]"

text \<open>A row with a URL, a phone number, an email address and a time expression that are
  all malformed, and one time expression that parses.\<close>

definition malformed_entry :: entry where
  "malformed_entry =
     demo_entry [(''gsx$name'', ''Serenity''), (''gsx$url'', ''not a url''), (''gsx$phone'', ''555-1234''),
                 (''gsx$email'', ''not-an-email''), (''gsx$timezone'', ''Europe/Rome''),
                 (''gsx$times'', ''domenica 7:00 pm'' @ [CHR 0x0A] @ ''!!!'')]"

text \<open>Rows whose names have runs of spaces, and a line break.\<close>

definition spaced_entry :: entry where
  "spaced_entry = demo_entry [(''gsx$name'', ''  Serenity   NOW '')]"

definition line_break_entry :: entry where
  "line_break_entry = demo_entry [(''gsx$name'', ''Serenity'' @ [CHR 0x0A] @ ''Now'')]"

subsection \<open>Facts about the helpers, the loop body and the loop\<close>

lemma split_not_Nil: "split sep s \<noteq> []"
  by (induction s) (auto split: list.splits)

lemma each_time_pushed:
  "fst (each_time env i m zone ts) =
     map (\<lambda>t. m\<lparr>time := moment_tz env t zone\<rparr>) (filter (\<lambda>t. moment_tz env t zone \<noteq> None) ts)"
  by (induction ts) (auto split: prod.splits option.splits)

lemma each_time_warned:
  "snd (each_time env i m zone ts) =
     map (\<lambda>t. warn t ''time'' i) (filter (\<lambda>t. moment_tz env t zone = None) ts)"
  by (induction ts) (auto split: prod.splits option.splits)

lemma reading_Inr:
  "reading ws r continue = (ws', Inr x) \<longleftrightarrow> (\<exists>y. r = Inr y \<and> continue y = (ws', Inr x))"
  by (cases r) (simp_all add: reading_def)

lemma row_Inr_each_time:
  assumes "row env i e = (ws, Inr r)"
  shows "\<exists>nm nts upd url ph b2 w2 em fs ts zone exprs meeting.
    cell_trim e ''gsx$name'' = Inr nm \<and>
    cell_array e ''gsx$notes'' (CHR 0x0A) = Inr nts \<and>
    cell e ''updated'' = Inr upd \<and>
    cell_trim e ''gsx$url'' = Inr url \<and>
    cell_trim e ''gsx$phone'' = Inr ph \<and>
    handle_phone i e ph = Inr (b2, w2) \<and>
    cell_trim e ''gsx$email'' = Inr em \<and>
    cell_array e ''gsx$formats'' CHR '','' = Inr fs \<and>
    cell_array e ''gsx$types'' CHR '','' = Inr ts \<and>
    cell_trim e ''gsx$timezone'' = Inr zone \<and>
    cell_array e ''gsx$times'' (CHR 0x0A) = Inr exprs \<and>
    meeting_formats r = fs \<and> meeting_types r = ts \<and>
    name meeting = nm \<and> buttons meeting = fst (handle_url env i url) @ b2 @ fst (handle_email i em) \<and>
    notes meeting = nts \<and> updated meeting = upd \<and> search meeting = search_index env nm \<and>
    tags meeting = fs @ ts \<and> time meeting = None \<and>
    pushed_meetings r = (if exprs \<noteq> [] then fst (each_time env i meeting zone exprs) else [meeting]) \<and>
    ws = snd (handle_url env i url) @ w2 @ snd (handle_email i em) @
      (if exprs \<noteq> [] then snd (each_time env i meeting zone exprs) else [])"
  using assms unfolding row_def
  apply (simp add: reading_Inr case_prod_beta Let_def split: if_splits)
  subgoal for y ya yb yc yd a b ye yf yg yh yi
    by (cases "yi = []")
      (auto intro!: exI [of _ "\<lparr>name = y, buttons = fst (handle_url env i yc) @ a @ fst (handle_email i ye),
                                 notes = ya, updated = yb, search = search_index env y, tags = yf @ yg,
                                 time = None\<rparr>"])
  done

lemma row_Inr:
  assumes "row env i e = (ws, Inr r)"
  shows "\<exists>nm nts upd url ph b2 w2 em fs ts zone exprs meeting.
    cell_trim e ''gsx$name'' = Inr nm \<and>
    cell_array e ''gsx$notes'' (CHR 0x0A) = Inr nts \<and>
    cell e ''updated'' = Inr upd \<and>
    cell_trim e ''gsx$url'' = Inr url \<and>
    cell_trim e ''gsx$phone'' = Inr ph \<and>
    handle_phone i e ph = Inr (b2, w2) \<and>
    cell_trim e ''gsx$email'' = Inr em \<and>
    cell_array e ''gsx$formats'' CHR '','' = Inr fs \<and>
    cell_array e ''gsx$types'' CHR '','' = Inr ts \<and>
    cell_trim e ''gsx$timezone'' = Inr zone \<and>
    cell_array e ''gsx$times'' (CHR 0x0A) = Inr exprs \<and>
    meeting_formats r = fs \<and> meeting_types r = ts \<and>
    name meeting = nm \<and> buttons meeting = fst (handle_url env i url) @ b2 @ fst (handle_email i em) \<and>
    notes meeting = nts \<and> updated meeting = upd \<and> search meeting = search_index env nm \<and>
    tags meeting = fs @ ts \<and> time meeting = None \<and>
    pushed_meetings r =
      (if exprs \<noteq> []
       then map (\<lambda>t. meeting\<lparr>time := moment_tz env t zone\<rparr>)
              (filter (\<lambda>t. moment_tz env t zone \<noteq> None) exprs)
       else [meeting]) \<and>
    ws = snd (handle_url env i url) @ w2 @ snd (handle_email i em) @
      map (\<lambda>t. warn t ''time'' i) (filter (\<lambda>t. moment_tz env t zone = None) exprs)"
  using row_Inr_each_time [OF assms]
  apply (elim exE conjE)
  apply (intro exI conjI)
                      apply assumption+
   apply (simp add: each_time_pushed)
  apply (simp add: each_time_warned)
  done

lemma reading_Inl:
  "reading ws r continue = (ws', Inl err) \<longleftrightarrow>
     (r = Inl err \<and> ws' = ws) \<or> (\<exists>y. r = Inr y \<and> continue y = (ws', Inl err))"
  by (cases r) (auto simp add: reading_def)

lemma cell_Inl: "cell e k = Inl err \<Longrightarrow> err = TypeError"
  by (auto simp: cell_def split: option.splits)

lemma cell_trim_Inl: "cell_trim e k = Inl err \<Longrightarrow> err = TypeError"
  by (auto simp: cell_trim_def cell_def split: option.splits sum.splits)

lemma cell_array_Inl: "cell_array e k sep = Inl err \<Longrightarrow> err = TypeError"
  by (auto simp: cell_array_def cell_def split: option.splits sum.splits)

lemma handle_phone_Inl: "handle_phone i e p = Inl err \<Longrightarrow> err = TypeError"
  by (auto simp: handle_phone_def Let_def split: if_splits sum.splits dest: cell_trim_Inl)

lemma row_Inl:
  assumes "row env i e = (ws, Inl err)"
  shows "err = TypeError"
  using assms unfolding row_def
  apply (simp add: reading_Inl case_prod_beta Let_def split: if_splits)
  apply (auto dest: cell_Inl cell_trim_Inl cell_array_Inl handle_phone_Inl)
  done

lemma cell_Inr: "cell e k = Inr t \<longleftrightarrow> e k = Some t"
  by (auto simp: cell_def split: option.splits)

lemma cell_trim_Inr: "cell_trim e k = Inr s \<longleftrightarrow> (\<exists>t. e k = Some (Some t) \<and> s = trim t)"
  by (auto simp: cell_trim_def cell_def split: option.splits sum.splits)

lemma cell_array_Inr:
  "cell_array e k sep = Inr xs \<longleftrightarrow> (\<exists>t. e k = Some (Some t) \<and> xs = stringToTrimmedArray t sep)"
  by (auto simp: cell_array_def cell_def split: option.splits sum.splits)

lemma row_missing:
  assumes "k \<in> set [''gsx$name'', ''gsx$notes'', ''updated'', ''gsx$url'', ''gsx$phone'',
                    ''gsx$email'', ''gsx$formats'', ''gsx$types'', ''gsx$timezone'', ''gsx$times'']"
    and "e k = None \<or> (k \<noteq> ''updated'' \<and> e k = Some None)"
  shows "snd (row env i e) = Inl TypeError"
proof (cases "snd (row env i e)")
  case (Inl err)
  then have "row env i e = (fst (row env i e), Inl err)"
    by (simp add: prod_eq_iff)
  then show ?thesis
    using Inl row_Inl by fastforce
next
  case (Inr r)
  then have "row env i e = (fst (row env i e), Inr r)"
    by (simp add: prod_eq_iff)
  from row_Inr [OF this] have "e k \<noteq> None \<and> (k \<noteq> ''updated'' \<longrightarrow> e k \<noteq> Some None)"
    using assms(1) by (auto simp: cell_Inr cell_trim_Inr cell_array_Inr)
  with assms(2) show ?thesis by simp
qed


lemma push_new_set: "set (push_new l ts) = set l \<union> set ts"
  by (induction ts arbitrary: l) auto

lemma push_new_distinct: "distinct l \<Longrightarrow> distinct (push_new l ts)"
  by (induction ts arbitrary: l) auto

lemma loop_distinct:
  "loop env i es vars = (vars', x) \<Longrightarrow> distinct (var_formats vars) \<Longrightarrow> distinct (var_types vars) \<Longrightarrow>
     distinct (var_formats vars') \<and> distinct (var_types vars')"
proof (induction es arbitrary: i vars)
  case Nil
  then show ?case by auto
next
  case (Cons e es)
  show ?case
  proof (cases "row env i e")
    case (Pair ws res)
    show ?thesis
    proof (cases res)
      case (Inl err)
      with Pair Cons.prems show ?thesis by auto
    next
      case (Inr r)
      with Pair Cons.prems show ?thesis
        by (auto intro!: Cons.IH [THEN conjunct1] Cons.IH [THEN conjunct2] simp: push_new_distinct)
    qed
  qed
qed

lemma loop_Some: "loop env i es vars = (vars', Some err) \<Longrightarrow> err = TypeError"
proof (induction es arbitrary: i vars)
  case Nil
  then show ?case by simp
next
  case (Cons e es)
  show ?case
  proof (cases "row env i e")
    case (Pair ws res)
    show ?thesis
    proof (cases res)
      case (Inl err')
      with Pair Cons.prems show ?thesis by (auto dest: row_Inl)
    next
      case (Inr r)
      with Pair Cons.prems show ?thesis by (auto dest: Cons.IH)
    qed
  qed
qed

lemma loop_missing:
  assumes "e \<in> set es" and "\<And>j. snd (row env j e) = Inl TypeError"
  shows "snd (loop env i es vars) = Some TypeError"
  using assms(1)
proof (induction es arbitrary: i vars)
  case Nil
  then show ?case by simp
next
  case (Cons x es)
  show ?case
  proof (cases "row env i x")
    case (Pair ws res)
    show ?thesis
    proof (cases res)
      case (Inl err)
      with Pair have "err = TypeError" by (auto dest: row_Inl)
      with Pair Inl show ?thesis by simp
    next
      case (Inr r)
      with Pair assms(2) [of i] have "x \<noteq> e" by auto
      with Cons.prems have "e \<in> set es" by simp
      with Pair Inr show ?thesis by (simp add: Cons.IH)
    qed
  qed
qed

text \<open>
  A loop that ends without an error has made one pass per entry, the pass of entry \<open>k\<close>
  with the index \<open>k\<close>; the meetings and the console lines of the passes, in order, are
  what it adds to the meetings and to the console.
\<close>

lemma loop_passes:
  "loop env i es vars = (vars', None) \<Longrightarrow>
     \<exists>ps. length ps = length es \<and>
          (\<forall>k<length es. row env (i + k) (es ! k) = (fst (ps ! k), Inr (snd (ps ! k)))) \<and>
          var_meetings vars' = var_meetings vars @ concat (map (\<lambda>p. pushed_meetings (snd p)) ps) \<and>
          console vars' = console vars @ concat (map fst ps)"
proof (induction es arbitrary: i vars)
  case Nil
  then show ?case by simp
next
  case (Cons e es)
  show ?case
  proof (cases "row env i e")
    case (Pair ws res)
    show ?thesis
    proof (cases res)
      case (Inl err)
      with Pair Cons.prems show ?thesis by simp
    next
      case (Inr r)
      define vars1 where "vars1 =
        \<lparr>var_meetings = var_meetings vars @ pushed_meetings r,
         var_formats = push_new (var_formats vars) (meeting_formats r),
         var_types = push_new (var_types vars) (meeting_types r),
         console = console vars @ ws\<rparr>"
      from Pair Inr Cons.prems have "loop env (Suc i) es vars1 = (vars', None)"
        by (simp add: vars1_def)
      from Cons.IH [OF this] obtain ps where ps: "length ps = length es"
        "\<forall>k<length es. row env (Suc i + k) (es ! k) = (fst (ps ! k), Inr (snd (ps ! k)))"
        "var_meetings vars' = var_meetings vars1 @ concat (map (\<lambda>p. pushed_meetings (snd p)) ps)"
        "console vars' = console vars1 @ concat (map fst ps)"
        by blast
      have "\<forall>k<length (e # es). row env (i + k) ((e # es) ! k) =
              (fst (((ws, r) # ps) ! k), Inr (snd (((ws, r) # ps) ! k)))"
        using ps(2) Pair Inr by (auto simp: nth_Cons split: nat.splits)
      with ps(1,3,4) show ?thesis
        by (intro exI [of _ "(ws, r) # ps"]) (simp add: vars1_def)
    qed
  qed
qed

lemma handle_phone_total:
  "has_text e ''gsx$accesscode'' \<Longrightarrow> \<exists>bw. handle_phone i e p = Inr bw"
  by (auto simp: handle_phone_def has_text_def cell_trim_def cell_def Let_def split: option.splits)

lemma row_total:
  assumes "well_formed e"
  shows "\<exists>ws r. row env i e = (ws, Inr r)"
proof -
  have t: "has_text e k" if "k \<in> set columns" for k
    using assms that by (simp add: well_formed_def list_all_iff)
  have c: "\<exists>s. e k = Some (Some s)" if "k \<in> set columns" for k
    using t [OF that] by (auto simp: has_text_def split: option.splits)
  have bw: "\<exists>bw. handle_phone i e p = Inr bw" for p
    using handle_phone_total [of e i] t [of "''gsx$accesscode''"] by (auto simp: columns_def)
  from c [of "''gsx$name''"] c [of "''gsx$notes''"] c [of "''updated''"] c [of "''gsx$url''"]
    c [of "''gsx$phone''"] c [of "''gsx$email''"] c [of "''gsx$formats''"] c [of "''gsx$types''"]
    c [of "''gsx$timezone''"] c [of "''gsx$times''"]
  obtain s1 s2 s3 s4 s5 s6 s7 s8 s9 s10 where s:
    "e ''gsx$name'' = Some (Some s1)" "e ''gsx$notes'' = Some (Some s2)" "e ''updated'' = Some (Some s3)"
    "e ''gsx$url'' = Some (Some s4)" "e ''gsx$phone'' = Some (Some s5)" "e ''gsx$email'' = Some (Some s6)"
    "e ''gsx$formats'' = Some (Some s7)" "e ''gsx$types'' = Some (Some s8)"
    "e ''gsx$timezone'' = Some (Some s9)" "e ''gsx$times'' = Some (Some s10)"
    by (auto simp: columns_def)
  obtain b2 w2 where p: "handle_phone i e (trim s5) = Inr (b2, w2)"
    using bw [of "trim s5"] by auto
  show ?thesis
    unfolding row_def
    by (simp add: reading_def cell_def cell_trim_def cell_array_def s p case_prod_beta Let_def)
qed

lemma loop_total:
  "\<forall>e\<in>set es. well_formed e \<Longrightarrow> snd (loop env i es vars) = None"
proof (induction es arbitrary: i vars)
  case Nil
  then show ?case by simp
next
  case (Cons e es)
  then obtain ws r where "row env i e = (ws, Inr r)"
    using row_total [of e env i] by auto
  with Cons show ?case by simp
qed


lemma split_no_sep: "c \<notin> set s \<Longrightarrow> split c s = [s]"
  by (induction s) auto

lemma split_has_sep: "c \<in> set s \<Longrightarrow> \<exists>k v rest. split c s = k # v # rest"
proof (induction s)
  case Nil
  then show ?case by simp
next
  case (Cons x s)
  show ?case
  proof (cases "x = c")
    case True
    then show ?thesis
      using split_not_Nil [of c s] by (cases "split c s") auto
  next
    case False
    with Cons show ?thesis by auto
  qed
qed

lemma decode_all_total: "\<forall>x\<in>set xs. dec x \<noteq> None \<Longrightarrow> \<exists>ys. decode_all dec xs = Inr ys"
  by (induction xs) auto

lemma each_pair_total:
  "\<forall>p\<in>set ps. CHR ''='' \<in> set p \<and> (\<forall>x\<in>set (split CHR '','' (split CHR ''='' p ! 1)). dec x \<noteq> None)
     \<Longrightarrow> \<exists>q'. each_pair dec ps q = Inr q'"
proof (induction ps arbitrary: q)
  case Nil
  then show ?case by simp
next
  case (Cons p ps)
  then obtain k v rest where kv: "split CHR ''='' p = k # v # rest"
    using split_has_sep [of "CHR ''=''" p] by auto
  with Cons.prems have "\<forall>x\<in>set (split CHR '','' v). dec x \<noteq> None" by simp
  then obtain vals where "decode_all dec (split CHR '','' v) = Inr vals"
    using decode_all_total by blast
  with kv Cons show ?case by simp
qed

lemma each_pair_fail:
  "p \<in> set ps \<Longrightarrow> CHR ''='' \<notin> set p \<Longrightarrow> \<exists>err. each_pair dec ps q = Inl err"
proof (induction ps arbitrary: q)
  case Nil
  then show ?case by simp
next
  case (Cons x ps)
  show ?case
  proof (cases "x = p")
    case True
    with Cons.prems show ?thesis by (simp add: split_no_sep)
  next
    case False
    with Cons.prems have "p \<in> set ps" by simp
    from Cons.IH [OF this Cons.prems(2)] show ?thesis
      by (auto split: list.splits sum.splits)
  qed
qed

lemma each_pair_other_keys:
  "each_pair dec ps qa = Inr q \<Longrightarrow> each_pair dec ps qb = Inr q' \<Longrightarrow> qa c = qb c \<Longrightarrow> q c = q' c"
proof (induction ps arbitrary: qa qb)
  case Nil
  then show ?case by simp
next
  case (Cons p ps)
  from Cons.prems show ?case
    by (auto split: list.splits sum.splits intro: Cons.IH)
qed

lemma each_pair_skip:
  "each_pair dec (ps @ p # ps') q0 = Inr q \<Longrightarrow> each_pair dec (ps @ ps') q0 = Inr q' \<Longrightarrow>
     c \<noteq> hd (split CHR ''='' p) \<Longrightarrow> q c = q' c"
proof (induction ps arbitrary: q0)
  case Nil
  from Nil show ?case
    by (auto split: list.splits sum.splits intro: each_pair_other_keys)
next
  case (Cons x ps)
  from Cons.prems show ?case
    by (auto split: list.splits sum.splits intro: Cons.IH)
qed

lemma each_time_search: "each_time (env\<lparr>location_search := s\<rparr>) i m zone ts = each_time env i m zone ts"
  by (induction ts) auto

lemma handle_url_search: "handle_url (env\<lparr>location_search := s\<rparr>) i u = handle_url env i u"
  by (simp add: handle_url_def cong: if_cong option.case_cong)

lemma search_index_search: "search_index (env\<lparr>location_search := s\<rparr>) nm = search_index env nm"
  by (simp add: search_index_def)

lemma row_search: "row (env\<lparr>location_search := s\<rparr>) i e = row env i e"
  by (simp add: row_def handle_url_search each_time_search search_index_search cong: if_cong)

lemma loop_search: "loop (env\<lparr>location_search := s\<rparr>) i es vars = loop env i es vars"
  by (induction es arbitrary: i vars) (simp_all add: row_search)

lemma load_Inr:
  "snd (load env es) = Inr st \<longleftrightarrow>
     (\<exists>vars query. loop env 0 es \<lparr>var_meetings = [], var_formats = [], var_types = [], console = []\<rparr> = (vars, None) \<and>
        read_query env = Inr query \<and>
        st = \<lparr>filters =
                       [''days'' \<mapsto> arrayToTagsArray (days env) (preselected query ''days''),
                        ''formats'' \<mapsto>
                          arrayToTagsArray (sort (var_formats vars)) (preselected query ''formats''),
                        ''types'' \<mapsto>
                          arrayToTagsArray (sort (var_types vars)) (preselected query ''types'')],
                     limit = meetingsPerPage env,
                     loading = False,
                     meetings = var_meetings vars,
                     state_search = [],
                     timezone = tz_guess env\<rparr>)"
  unfolding load_def
  by (auto split: prod.splits option.splits sum.splits)

lemma load_Inl:
  "snd (load env es) = Inl err \<longleftrightarrow>
     snd (loop env 0 es \<lparr>var_meetings = [], var_formats = [], var_types = [], console = []\<rparr>) = Some err \<or>
     snd (loop env 0 es \<lparr>var_meetings = [], var_formats = [], var_types = [], console = []\<rparr>) = None \<and>
       read_query env = Inl err"
  unfolding load_def
  by (auto split: prod.splits option.splits sum.splits)

text \<open>
  So for a state that \<^verbatim>\<open>load\<close> returns: its meetings are the meetings pushed by the pass of
  each row, row after row, and the console holds the lines of each pass.
\<close>

lemma load_passes:
  assumes "snd (load env es) = Inr st"
  shows "\<exists>ps. length ps = length es \<and>
          (\<forall>k<length es. row env k (es ! k) = (fst (ps ! k), Inr (snd (ps ! k)))) \<and>
          meetings st = concat (map (\<lambda>p. pushed_meetings (snd p)) ps) \<and>
          fst (load env es) = concat (map fst ps)"
proof -
  from assms obtain vars query where
    l: "loop env 0 es \<lparr>var_meetings = [], var_formats = [], var_types = [], console = []\<rparr> = (vars, None)"
    and q: "read_query env = Inr query"
    and m: "meetings st = var_meetings vars"
    unfolding load_Inr by auto
  from l q have c: "fst (load env es) = console vars"
    by (simp add: load_def)
  from loop_passes [OF l] m c show ?thesis
    by simp
qed

subsection \<open>Expansion of the times of a row\<close>

text \<open>
  The meetings a pass pushes: the one meeting of the row when its list of time
  expressions is empty, and otherwise one clone per expression that parses, in order.
\<close>

lemma row_times:
  assumes "row env i e = (ws, Inr r)"
    and "cell_array e ''gsx$times'' (CHR 0x0A) = Inr exprs"
    and "cell_trim e ''gsx$timezone'' = Inr zone"
  shows "\<exists>meeting. time meeting = None \<and>
           pushed_meetings r =
             (if exprs \<noteq> []
              then map (\<lambda>t. meeting\<lparr>time := moment_tz env t zone\<rparr>)
                     (filter (\<lambda>t. moment_tz env t zone \<noteq> None) exprs)
              else [meeting])"
  using row_Inr [OF assms(1)] assms(2,3) by auto

text \<open>
  C1, as the code has it. Take a pass of the loop that completes, for a row none of whose
  time expressions parses in the zone of the row. If the list of expressions is empty,
  the pass pushes exactly one meeting, and it has no time. If the list is not empty, the
  pass pushes no meeting at all.
\<close>

theorem times_none_valid:
  assumes "row env i e = (ws, Inr r)"
    and "cell_array e ''gsx$times'' (CHR 0x0A) = Inr exprs"
    and "cell_trim e ''gsx$timezone'' = Inr zone"
    and "\<forall>t\<in>set exprs. moment_tz env t zone = None"
  shows "(exprs = [] \<longrightarrow> (\<exists>m. pushed_meetings r = [m] \<and> time m = None)) \<and>
         (exprs \<noteq> [] \<longrightarrow> pushed_meetings r = [])"
proof -
  from row_times [OF assms(1-3)] obtain meeting where m: "time meeting = None"
    "pushed_meetings r =
       (if exprs \<noteq> []
        then map (\<lambda>t. meeting\<lparr>time := moment_tz env t zone\<rparr>)
               (filter (\<lambda>t. moment_tz env t zone \<noteq> None) exprs)
        else [meeting])"
    by blast
  have "filter (\<lambda>t. moment_tz env t zone \<noteq> None) exprs = []"
    using assms(4) by (simp add: filter_empty_conv)
  with m show ?thesis by auto
qed

lemma well_formed_demo: "well_formed (demo_entry cells)"
  by (simp add: well_formed_def list_all_iff has_text_def demo_entry_def split: option.splits)

text \<open>The two cases of C1 on the sample rows: one with blank times, one with two
  expressions that do not parse.\<close>

theorem times_none_valid_witness:
  "cell_array ongoing_entry ''gsx$times'' (CHR 0x0A) = Inr [] \<and>
   (\<exists>ws r m. row (demo_env []) 0 ongoing_entry = (ws, Inr r) \<and> pushed_meetings r = [m] \<and> time m = None) \<and>
   cell_array unparsable_entry ''gsx$times'' (CHR 0x0A) = Inr [''!!!'', ''???''] \<and>
   moment_tz (demo_env []) ''!!!'' ''Europe/Rome'' = None \<and>
   moment_tz (demo_env []) ''???'' ''Europe/Rome'' = None \<and>
   (\<exists>ws r. row (demo_env []) 1 unparsable_entry = (ws, Inr r) \<and> pushed_meetings r = [])"
proof -
  have t1: "cell_array ongoing_entry ''gsx$times'' (CHR 0x0A) = Inr []"
    by code_simp
  have z1: "cell_trim ongoing_entry ''gsx$timezone'' = Inr []"
    by code_simp
  obtain ws1 r1 where r1: "row (demo_env []) 0 ongoing_entry = (ws1, Inr r1)"
    using row_total [OF well_formed_demo] unfolding ongoing_entry_def by blast
  have t2: "cell_array unparsable_entry ''gsx$times'' (CHR 0x0A) = Inr [''!!!'', ''???'']"
    by code_simp
  have z2: "cell_trim unparsable_entry ''gsx$timezone'' = Inr ''Europe/Rome''"
    by code_simp
  have p1: "moment_tz (demo_env []) ''!!!'' ''Europe/Rome'' = None"
    by code_simp
  have p2: "moment_tz (demo_env []) ''???'' ''Europe/Rome'' = None"
    by code_simp
  obtain ws2 r2 where r2: "row (demo_env []) 1 unparsable_entry = (ws2, Inr r2)"
    using row_total [OF well_formed_demo] unfolding unparsable_entry_def by blast
  from times_none_valid [OF r1 t1 z1] have "\<exists>m. pushed_meetings r1 = [m] \<and> time m = None"
    by simp
  moreover from times_none_valid [OF r2 t2 z2] p1 p2 have "pushed_meetings r2 = []"
    by simp
  ultimately show ?thesis
    using t1 t2 p1 p2 r1 r2 by blast
qed

text \<open>
  C1 as the specification words it fails: a feed of one row whose two time expressions
  do not parse is loaded into a state with no meeting, not one.
\<close>

theorem times_all_invalid_counterexample:
  "cell_array unparsable_entry ''gsx$times'' (CHR 0x0A) = Inr [''!!!'', ''???''] \<and>
   moment_tz (demo_env []) ''!!!'' ''Europe/Rome'' = None \<and>
   moment_tz (demo_env []) ''???'' ''Europe/Rome'' = None \<and>
   (case snd (load (demo_env []) [unparsable_entry]) of
      Inl err \<Rightarrow> False
    | Inr st \<Rightarrow> meetings st = [])"
  by code_simp

text \<open>
  C2, as the code has it. Take a pass of the loop that completes, for a row of which
  \<open>valid\<close>, the expressions that parse in the zone of the row, is not empty. The pass
  pushes one meeting per valid expression; they are one meeting with its time set to
  the parse of each valid expression in the zone of the row, in order; and their times
  are distinct exactly when those parses are.
\<close>

theorem times_valid:
  assumes "row env i e = (ws, Inr r)"
    and "cell_array e ''gsx$times'' (CHR 0x0A) = Inr exprs"
    and "cell_trim e ''gsx$timezone'' = Inr zone"
    and "valid = filter (\<lambda>t. moment_tz env t zone \<noteq> None) exprs"
    and "valid \<noteq> []"
  shows "length (pushed_meetings r) = length valid \<and>
         (\<exists>meeting. time meeting = None \<and>
            pushed_meetings r = map (\<lambda>t. meeting\<lparr>time := moment_tz env t zone\<rparr>) valid) \<and>
         (distinct (map time (pushed_meetings r)) \<longleftrightarrow>
            distinct (map (\<lambda>t. moment_tz env t zone) valid))"
proof -
  from assms(4,5) have "exprs \<noteq> []" by auto
  with row_times [OF assms(1-3)] assms(4) obtain meeting where m: "time meeting = None"
    "pushed_meetings r = map (\<lambda>t. meeting\<lparr>time := moment_tz env t zone\<rparr>) valid"
    by auto
  have eq: "map time (pushed_meetings r) = map (\<lambda>t. moment_tz env t zone) valid"
    by (simp add: m(2) comp_def)
  show ?thesis
    unfolding eq using m by auto
qed

text \<open>C2 on a sample row with three expressions, the first and the last the same.\<close>

theorem times_valid_witness:
  "cell_array repeated_entry ''gsx$times'' (CHR 0x0A) = Inr [''domenica 7:00 pm'', ''!!!'', ''domenica 7:00 pm''] \<and>
   filter (\<lambda>t. moment_tz (demo_env []) t ''Europe/Rome'' \<noteq> None) [''domenica 7:00 pm'', ''!!!'', ''domenica 7:00 pm'']
     = [''domenica 7:00 pm'', ''domenica 7:00 pm''] \<and>
   (\<exists>ws r meeting. row (demo_env []) 0 repeated_entry = (ws, Inr r) \<and> length (pushed_meetings r) = 2 \<and>
      time meeting = None \<and>
      pushed_meetings r = [meeting\<lparr>time := Some (''domenica 7:00 pm'', ''Europe/Rome'')\<rparr>,
                           meeting\<lparr>time := Some (''domenica 7:00 pm'', ''Europe/Rome'')\<rparr>] \<and>
      \<not> distinct (map time (pushed_meetings r)))"
proof -
  have t: "cell_array repeated_entry ''gsx$times'' (CHR 0x0A) = Inr [''domenica 7:00 pm'', ''!!!'', ''domenica 7:00 pm'']"
    by code_simp
  have z: "cell_trim repeated_entry ''gsx$timezone'' = Inr ''Europe/Rome''"
    by code_simp
  have v: "[''domenica 7:00 pm'', ''domenica 7:00 pm''] =
      filter (\<lambda>t. moment_tz (demo_env []) t ''Europe/Rome'' \<noteq> None) [''domenica 7:00 pm'', ''!!!'', ''domenica 7:00 pm'']"
    by code_simp
  have p: "moment_tz (demo_env []) ''domenica 7:00 pm'' ''Europe/Rome'' = Some (''domenica 7:00 pm'', ''Europe/Rome'')"
    by code_simp
  obtain ws r where r: "row (demo_env []) 0 repeated_entry = (ws, Inr r)"
    using row_total [OF well_formed_demo] unfolding repeated_entry_def by blast
  from times_valid [OF r t z v] show ?thesis
    using t v [symmetric] r p by auto
qed

text \<open>
  C2 as the specification words it fails: a feed of one row that lists the same valid
  expression twice is loaded into two meetings whose times are not distinct.
\<close>

theorem times_repeated_counterexample:
  "cell_array repeated_entry ''gsx$times'' (CHR 0x0A) = Inr [''domenica 7:00 pm'', ''!!!'', ''domenica 7:00 pm''] \<and>
   moment_tz (demo_env []) ''domenica 7:00 pm'' ''Europe/Rome'' \<noteq> None \<and>
   (case snd (load (demo_env []) [repeated_entry]) of
      Inl err \<Rightarrow> False
    | Inr st \<Rightarrow> length (meetings st) = 2 \<and> \<not> distinct (map time (meetings st)))"
  by code_simp

subsection \<open>Missing columns, tags and vocabularies\<close>

text \<open>A row that lacks a column the pass always reads ends the whole load with a TypeError;
  a feed of well-formed rows is loaded unless the query string throws.\<close>

lemma load_missing:
  assumes "e \<in> set es"
    and "k \<in> set [''gsx$name'', ''gsx$notes'', ''updated'', ''gsx$url'', ''gsx$phone'',
                    ''gsx$email'', ''gsx$formats'', ''gsx$types'', ''gsx$timezone'', ''gsx$times'']"
    and "e k = None \<or> (k \<noteq> ''updated'' \<and> e k = Some None)"
  shows "snd (load env es) = Inl TypeError"
  using loop_missing [OF assms(1), of env] row_missing [where k = k and e = e and env = env, OF assms(2,3)]
  by (simp add: load_Inl)

lemma load_total:
  assumes "\<forall>e\<in>set es. well_formed e"
  shows "(\<exists>st. snd (load env es) = Inr st) \<or> (\<exists>err. read_query env = Inl err \<and> snd (load env es) = Inl err)"
proof (cases "read_query env")
  case (Inl err)
  with loop_total [OF assms, of env 0 "\<lparr>var_meetings = [], var_formats = [], var_types = [], console = []\<rparr>"]
  show ?thesis
    by (simp add: load_Inl)
next
  case (Inr query)
  obtain vars x where l: "loop env 0 es \<lparr>var_meetings = [], var_formats = [], var_types = [], console = []\<rparr> = (vars, x)"
    by (cases "loop env 0 es \<lparr>var_meetings = [], var_formats = [], var_types = [], console = []\<rparr>")
  with loop_total [OF assms, of env 0 "\<lparr>var_meetings = [], var_formats = [], var_types = [], console = []\<rparr>"]
  have "x = None" by simp
  with l Inr have "\<exists>st. snd (load env es) = Inr st"
    unfolding load_Inr by blast
  then show ?thesis ..
qed

text \<open>C3, as the code has it. If some row of the feed lacks one of the ten columns that every
  pass reads (the entry has no such property, or the cell has no text, which
  \<^verbatim>\<open>updated\<close> alone may lack), \<^verbatim>\<open>load\<close> throws a TypeError and returns no state: the row is
  not skipped. If every row has every column, whatever the texts are, \<^verbatim>\<open>load\<close> returns
  a state, or else throws the error that reading the query string throws.\<close>

theorem missing_field_throws:
  "((\<exists>e\<in>set es. \<exists>k\<in>set [''gsx$name'', ''gsx$notes'', ''updated'', ''gsx$url'', ''gsx$phone'',
                    ''gsx$email'', ''gsx$formats'', ''gsx$types'', ''gsx$timezone'', ''gsx$times''].
        e k = None \<or> (k \<noteq> ''updated'' \<and> e k = Some None))
      \<longrightarrow> snd (load env es) = Inl TypeError) \<and>
   ((\<forall>e\<in>set es. well_formed e)
      \<longrightarrow> (\<exists>st. snd (load env es) = Inr st) \<or>
          (\<exists>err. read_query env = Inl err \<and> snd (load env es) = Inl err))"
  using load_missing [of _ es _ env] load_total [of es env] by blast

lemma read_query_empty: "read_query (demo_env []) = Inr Map.empty"
  by (simp add: read_query_def demo_env_def)

text \<open>C3 on two sample feeds: one whose second row has no name column, one of two
  well-formed rows (the second with time expressions that do not parse).\<close>

theorem missing_field_throws_witness:
  "nameless_entry ''gsx$name'' = None \<and>
   snd (load (demo_env []) [ongoing_entry, nameless_entry]) = Inl TypeError \<and>
   well_formed ongoing_entry \<and> well_formed unparsable_entry \<and>
   (\<exists>st. snd (load (demo_env []) [ongoing_entry, unparsable_entry]) = Inr st)"
proof -
  have n: "nameless_entry ''gsx$name'' = None"
    by (simp add: nameless_entry_def)
  have w: "well_formed ongoing_entry" "well_formed unparsable_entry"
    by (simp_all add: ongoing_entry_def unparsable_entry_def well_formed_demo)
  from missing_field_throws [of "[ongoing_entry, nameless_entry]" "demo_env []"] n
  have 1: "snd (load (demo_env []) [ongoing_entry, nameless_entry]) = Inl TypeError"
    by simp
  from missing_field_throws [of "[ongoing_entry, unparsable_entry]" "demo_env []"] w read_query_empty
  have 2: "\<exists>st. snd (load (demo_env []) [ongoing_entry, unparsable_entry]) = Inr st"
    by simp
  from n 1 w 2 show ?thesis by blast
qed

text \<open>C3 as the specification words it fails: on a feed whose second row has no name column,
  \<^verbatim>\<open>load\<close> returns no state; it throws a TypeError.\<close>

theorem missing_field_counterexample:
  "nameless_entry ''gsx$name'' = None \<and>
   (case snd (load (demo_env []) [ongoing_entry, nameless_entry]) of
      Inl err \<Rightarrow> err = TypeError
    | Inr st \<Rightarrow> False)"
  by code_simp

text \<open>Every meeting a pass pushes has the name, the buttons, the search index and the tags
  of the row.\<close>

lemma row_pushed:
  assumes "row env i e = (ws, Inr r)" and "m \<in> set (pushed_meetings r)"
  shows "\<exists>nm url ph b2 w2 em fs ts.
    cell_trim e ''gsx$name'' = Inr nm \<and>
    cell_trim e ''gsx$url'' = Inr url \<and>
    cell_trim e ''gsx$phone'' = Inr ph \<and>
    handle_phone i e ph = Inr (b2, w2) \<and>
    cell_trim e ''gsx$email'' = Inr em \<and>
    cell_array e ''gsx$formats'' CHR '','' = Inr fs \<and>
    cell_array e ''gsx$types'' CHR '','' = Inr ts \<and>
    name m = nm \<and> buttons m = fst (handle_url env i url) @ b2 @ fst (handle_email i em) \<and>
    search m = search_index env nm \<and> tags m = fs @ ts"
proof -
  from row_Inr [OF assms(1)] obtain nm nts upd url ph b2 w2 em fs ts zone exprs and meeting :: "'a Meeting" where
    f: "cell_trim e ''gsx$name'' = Inr nm"
    "cell_trim e ''gsx$url'' = Inr url"
    "cell_trim e ''gsx$phone'' = Inr ph"
    "handle_phone i e ph = Inr (b2, w2)"
    "cell_trim e ''gsx$email'' = Inr em"
    "cell_array e ''gsx$formats'' CHR '','' = Inr fs"
    "cell_array e ''gsx$types'' CHR '','' = Inr ts"
    and m: "name meeting = nm" "buttons meeting = fst (handle_url env i url) @ b2 @ fst (handle_email i em)"
    "search meeting = search_index env nm" "tags meeting = fs @ ts"
    and p: "pushed_meetings r =
      (if exprs \<noteq> []
       then map (\<lambda>t. meeting\<lparr>time := moment_tz env t zone\<rparr>)
              (filter (\<lambda>t. moment_tz env t zone \<noteq> None) exprs)
       else [meeting])"
    by blast
  have "\<exists>t. m = meeting\<lparr>time := t\<rparr>"
  proof (cases "exprs = []")
    case True
    with p assms(2) have "m = meeting\<lparr>time := time meeting\<rparr>" by simp
    then show ?thesis ..
  next
    case False
    with p assms(2) show ?thesis by auto
  qed
  then obtain t where "m = meeting\<lparr>time := t\<rparr>" ..
  with m have "name m = nm" "buttons m = fst (handle_url env i url) @ b2 @ fst (handle_email i em)"
    "search m = search_index env nm" "tags m = fs @ ts"
    by simp_all
  with f show ?thesis by blast
qed

text \<open>C7, as the code has it. The tags of every meeting pushed for a row are the list of the
  format tokens of the row followed by its type tokens. As a set that is the union of the
  two; as a list it has no duplicate only if neither list has one and the two share no
  token.\<close>

theorem meeting_tags:
  assumes "row env i e = (ws, Inr r)"
    and "cell_array e ''gsx$formats'' CHR '','' = Inr fs"
    and "cell_array e ''gsx$types'' CHR '','' = Inr ts"
  shows "\<forall>m\<in>set (pushed_meetings r).
           tags m = fs @ ts \<and> set (tags m) = set fs \<union> set ts \<and>
           (distinct (tags m) \<longleftrightarrow> distinct fs \<and> distinct ts \<and> set fs \<inter> set ts = {})"
proof
  fix m
  assume "m \<in> set (pushed_meetings r)"
  from row_pushed [OF assms(1) this] assms(2,3) have "tags m = fs @ ts"
    by auto
  then show "tags m = fs @ ts \<and> set (tags m) = set fs \<union> set ts \<and>
           (distinct (tags m) \<longleftrightarrow> distinct fs \<and> distinct ts \<and> set fs \<inter> set ts = {})"
    by auto
qed

text \<open>C7 on the sample row whose formats and types share a token.\<close>

theorem meeting_tags_witness:
  "cell_array tagged_entry ''gsx$formats'' CHR '','' = Inr [''open'', ''speaker''] \<and>
   cell_array tagged_entry ''gsx$types'' CHR '','' = Inr [''men'', ''open''] \<and>
   (\<exists>ws r m. row (demo_env []) 0 tagged_entry = (ws, Inr r) \<and> pushed_meetings r = [m] \<and>
      tags m = [''open'', ''speaker'', ''men'', ''open''] \<and> \<not> distinct (tags m))"
proof -
  have f: "cell_array tagged_entry ''gsx$formats'' CHR '','' = Inr [''open'', ''speaker'']"
    by code_simp
  have t: "cell_array tagged_entry ''gsx$types'' CHR '','' = Inr [''men'', ''open'']"
    by code_simp
  have x: "cell_array tagged_entry ''gsx$times'' (CHR 0x0A) = Inr []"
    by code_simp
  have z: "cell_trim tagged_entry ''gsx$timezone'' = Inr []"
    by code_simp
  obtain ws r where r: "row (demo_env []) 0 tagged_entry = (ws, Inr r)"
    using row_total [OF well_formed_demo] unfolding tagged_entry_def by blast
  from row_times [OF r x z] obtain m where m: "pushed_meetings r = [m]"
    by auto
  from meeting_tags [OF r f t] m have "tags m = [''open'', ''speaker'', ''men'', ''open''] \<and> \<not> distinct (tags m)"
    by simp
  with f t r m show ?thesis by blast
qed

text \<open>C7 as the specification words it fails: a row with formats \<^verbatim>\<open>open, speaker\<close> and types
  \<^verbatim>\<open>men, open\<close> is loaded into a meeting whose tags hold \<^verbatim>\<open>open\<close> twice.\<close>

theorem meeting_tags_counterexample:
  "cell_array tagged_entry ''gsx$formats'' CHR '','' = Inr [''open'', ''speaker''] \<and>
   cell_array tagged_entry ''gsx$types'' CHR '','' = Inr [''men'', ''open''] \<and>
   (case snd (load (demo_env []) [tagged_entry]) of
      Inl err \<Rightarrow> False
    | Inr st \<Rightarrow> map tags (meetings st) = [[''open'', ''speaker'', ''men'', ''open'']] \<and>
               \<not> distinct (tags (hd (meetings st))))"
  by code_simp

lemma map_tag_arrayToTagsArray: "map tag (arrayToTagsArray xs vs) = xs"
  by (simp add: arrayToTagsArray_def comp_def)

text \<open>C4. In a state that \<^verbatim>\<open>load\<close> returns, the vocabulary of formats and the vocabulary of
  types have no tag twice, are sorted in ascending order (the order of strings here is the
  lexicographic order of their character codes), and a tag is checked exactly when it
  is in the list the query string gives for its category (the empty list when the query
  has no such key).\<close>

theorem vocabularies:
  assumes "snd (load env es) = Inr st"
    and "read_query env = Inr query"
    and "c = ''formats'' \<or> c = ''types''"
  shows "\<exists>ts. filters st c = Some ts \<and> distinct (map tag ts) \<and> sorted (map tag ts) \<and>
           (\<forall>t\<in>set ts. checked t \<longleftrightarrow> tag t \<in> set (preselected query c))"
proof -
  from assms(1,2) obtain vars where
    l: "loop env 0 es \<lparr>var_meetings = [], var_formats = [], var_types = [], console = []\<rparr> = (vars, None)"
    and st: "filters st = [''days'' \<mapsto> arrayToTagsArray (days env) (preselected query ''days''),
                        ''formats'' \<mapsto>
                          arrayToTagsArray (sort (var_formats vars)) (preselected query ''formats''),
                        ''types'' \<mapsto>
                          arrayToTagsArray (sort (var_types vars)) (preselected query ''types'')]"
    unfolding load_Inr by auto
  from loop_distinct [OF l] have d: "distinct (var_formats vars)" "distinct (var_types vars)"
    by simp_all
  have "\<exists>xs. filters st c = Some (arrayToTagsArray (sort xs) (preselected query c)) \<and> distinct xs"
    using assms(3) st d by auto
  then obtain xs where xs: "filters st c = Some (arrayToTagsArray (sort xs) (preselected query c))" "distinct xs"
    by blast
  have "\<forall>t\<in>set (arrayToTagsArray (sort xs) (preselected query c)). checked t \<longleftrightarrow> tag t \<in> set (preselected query c)"
    by (auto simp: arrayToTagsArray_def)
  with xs show ?thesis
    by (simp add: map_tag_arrayToTagsArray)
qed

lemma read_query_formats:
  "read_query (demo_env ''?formats=foo,bar'') = Inr [''formats'' \<mapsto> [''foo'', ''bar'']]"
  by (simp add: read_query_def demo_env_def demo_decode_def)

text \<open>C4 on the sample feed with the query string \<^verbatim>\<open>?formats=foo,bar\<close>.\<close>

theorem vocabularies_witness:
  "read_query (demo_env ''?formats=foo,bar'') = Inr [''formats'' \<mapsto> [''foo'', ''bar'']] \<and>
   (\<exists>st ts. snd (load (demo_env ''?formats=foo,bar'') vocabulary_feed) = Inr st \<and>
      filters st ''formats'' = Some ts \<and> distinct (map tag ts) \<and> sorted (map tag ts) \<and>
      ts = [\<lparr>tag = ''bar'', checked = True\<rparr>, \<lparr>tag = ''baz'', checked = False\<rparr>,
            \<lparr>tag = ''foo'', checked = True\<rparr>])"
proof -
  have "\<forall>e\<in>set vocabulary_feed. well_formed e"
    by (simp add: vocabulary_feed_def well_formed_demo)
  from load_total [OF this, of "demo_env ''?formats=foo,bar''"] read_query_formats
  obtain st where st: "snd (load (demo_env ''?formats=foo,bar'') vocabulary_feed) = Inr st"
    by auto
  have "case snd (load (demo_env ''?formats=foo,bar'') vocabulary_feed) of
          Inl err \<Rightarrow> False
        | Inr st \<Rightarrow> filters st ''formats'' =
            Some [\<lparr>tag = ''bar'', checked = True\<rparr>, \<lparr>tag = ''baz'', checked = False\<rparr>,
                  \<lparr>tag = ''foo'', checked = True\<rparr>]"
    by code_simp
  with st have f: "filters st ''formats'' =
            Some [\<lparr>tag = ''bar'', checked = True\<rparr>, \<lparr>tag = ''baz'', checked = False\<rparr>,
                  \<lparr>tag = ''foo'', checked = True\<rparr>]"
    by simp
  from vocabularies [OF st read_query_formats, of "''formats''"] f
  have "distinct (map tag [\<lparr>tag = ''bar'', checked = True\<rparr>, \<lparr>tag = ''baz'', checked = False\<rparr>,
                  \<lparr>tag = ''foo'', checked = True\<rparr>]) \<and>
        sorted (map tag [\<lparr>tag = ''bar'', checked = True\<rparr>, \<lparr>tag = ''baz'', checked = False\<rparr>,
                  \<lparr>tag = ''foo'', checked = True\<rparr>])"
    by auto
  with read_query_formats st f show ?thesis by blast
qed

subsection \<open>Buttons and warnings\<close>

text \<open>What the three contact sections give: the icons of their buttons and the lines they
  write.\<close>

lemma handle_url_icon: "b \<in> set (fst (handle_url env i u)) \<Longrightarrow> icon b \<noteq> Phone"
  by (auto simp: handle_url_def Let_def split: if_splits option.splits)

lemma handle_url_warnings:
  "snd (handle_url env i u) = (if u \<noteq> [] \<and> hostname env u = None then [warn u ''URL'' i] else [])"
  by (auto simp: handle_url_def Let_def split: option.splits)

lemma handle_email_icon: "b \<in> set (fst (handle_email i em)) \<Longrightarrow> icon b \<noteq> Phone"
  by (auto simp: handle_email_def split: if_splits)

lemma handle_email_warnings:
  "snd (handle_email i em) = (if em \<noteq> [] \<and> \<not> validateEmail em then [warn em ''email address'' i] else [])"
  by (auto simp: handle_email_def)

lemma handle_phone_warnings:
  "handle_phone i e p = Inr (b2, w2) \<Longrightarrow>
     w2 = (if p \<noteq> [] \<and> length (filter isDigit p) \<le> 8 then [warn p ''phone number'' i] else [])"
  by (auto simp: handle_phone_def Let_def split: if_splits sum.splits)

lemma handle_phone_buttons:
  "handle_phone i e p = Inr (b2, w2) \<Longrightarrow>
     (p = [] \<or> length (filter isDigit p) \<le> 8 \<longrightarrow> b2 = []) \<and>
     (p \<noteq> [] \<and> length (filter isDigit p) > 8 \<longrightarrow>
        (\<exists>code. cell_trim e ''gsx$accesscode'' = Inr code \<and>
           b2 = [\<lparr>icon = Phone,
                  onClick = WindowOpen (''tel:'' @ filter isDigit p @ (if code \<noteq> [] then '',,'' @ code else [])) None,
                  label = ''Telefono'',
                  title = ''Chiama '' @ filter isDigit p @ (if code \<noteq> [] then '',,'' @ code else [])\<rparr>]))"
  by (auto simp: handle_phone_def Let_def split: if_splits sum.splits)

text \<open>The character before the final full stop of a warning is the last of its field kind,
  so a warning of another kind is never a warning about a phone number.\<close>

lemma warn_kind: "k \<noteq> [] \<Longrightarrow> last (butlast (warn v k i)) = last k"
  by (simp add: warn_def butlast_append)

lemma other_warning:
  assumes "k \<noteq> []" and "last k \<noteq> CHR ''r''"
  shows "warn a k i \<noteq> warn v ''phone number'' j"
proof
  assume "warn a k i = warn v ''phone number'' j"
  then have "last (butlast (warn a k i)) = last (butlast (warn v ''phone number'' j))"
    by simp
  with assms show False
    by (simp add: warn_kind)
qed

text \<open>The console lines of a pass that completes, in order: at most one for the URL, one for
  the phone number and one for the email address, then one per time expression that does
  not parse.\<close>

lemma row_console:
  assumes "row env i e = (ws, Inr r)"
    and "cell_trim e ''gsx$url'' = Inr url"
    and "cell_trim e ''gsx$phone'' = Inr phone"
    and "cell_trim e ''gsx$email'' = Inr email"
    and "cell_trim e ''gsx$timezone'' = Inr zone"
    and "cell_array e ''gsx$times'' (CHR 0x0A) = Inr exprs"
  shows "ws =
    (if url \<noteq> [] \<and> hostname env url = None then [warn url ''URL'' i] else []) @
    (if phone \<noteq> [] \<and> length (filter isDigit phone) \<le> 8 then [warn phone ''phone number'' i] else []) @
    (if email \<noteq> [] \<and> \<not> validateEmail email then [warn email ''email address'' i] else []) @
    map (\<lambda>t. warn t ''time'' i) (filter (\<lambda>t. moment_tz env t zone = None) exprs)"
proof -
  from row_Inr [OF assms(1)] assms(2-6) obtain b2 w2 where
    p: "handle_phone i e phone = Inr (b2, w2)"
    and ws: "ws = snd (handle_url env i url) @ w2 @ snd (handle_email i email) @
      map (\<lambda>t. warn t ''time'' i) (filter (\<lambda>t. moment_tz env t zone = None) exprs)"
    by auto
  show ?thesis
    unfolding ws handle_url_warnings handle_email_warnings handle_phone_warnings [OF p] ..
qed

text \<open>C9, as the code has it. The console lines of a pass that completes for the row of index
  \<open>i\<close> are, in order, one line per malformed field: the URL when it is not empty and does
  not parse, the phone number when it is not empty and has at most eight digits, the
  email address when it is not empty and fails the test, and each time expression that
  does not parse. Each line is \<^verbatim>\<open>Row n: \<close> with \<open>n = i + 2\<close>, the value between the
  typographic quotation marks U+201C and U+201D, and \<^verbatim>\<open> is not a valid kind.\<close>\<close>

theorem warning_lines:
  assumes "row env i e = (ws, Inr r)"
    and "cell_trim e ''gsx$url'' = Inr url"
    and "cell_trim e ''gsx$phone'' = Inr phone"
    and "cell_trim e ''gsx$email'' = Inr email"
    and "cell_trim e ''gsx$timezone'' = Inr zone"
    and "cell_array e ''gsx$times'' (CHR 0x0A) = Inr exprs"
  shows "ws =
    map (\<lambda>(v, kind). ''Row '' @ toString (i + 2) @ '': '' @ ldquo @ v @ rdquo @ '' is not a valid '' @ kind @ ''.'')
      ((if url \<noteq> [] \<and> hostname env url = None then [(url, ''URL'')] else []) @
       (if phone \<noteq> [] \<and> length (filter isDigit phone) \<le> 8 then [(phone, ''phone number'')] else []) @
       (if email \<noteq> [] \<and> \<not> validateEmail email then [(email, ''email address'')] else []) @
       map (\<lambda>t. (t, ''time'')) (filter (\<lambda>t. moment_tz env t zone = None) exprs))"
  unfolding row_console [OF assms]
  by (simp add: warn_def comp_def)

text \<open>C9 on the sample row with four malformed fields, at index 3: four lines for row 5.\<close>

theorem warning_lines_witness:
  "cell_trim malformed_entry ''gsx$url'' = Inr ''not a url'' \<and>
   hostname (demo_env []) ''not a url'' = None \<and>
   \<not> validateEmail ''not-an-email'' \<and>
   (\<exists>ws r. row (demo_env []) 3 malformed_entry = (ws, Inr r) \<and>
      ws = [''Row 5: '' @ ldquo @ ''not a url'' @ rdquo @ '' is not a valid URL.'',
            ''Row 5: '' @ ldquo @ ''555-1234'' @ rdquo @ '' is not a valid phone number.'',
            ''Row 5: '' @ ldquo @ ''not-an-email'' @ rdquo @ '' is not a valid email address.'',
            ''Row 5: '' @ ldquo @ ''!!!'' @ rdquo @ '' is not a valid time.''])"
proof -
  have u: "cell_trim malformed_entry ''gsx$url'' = Inr ''not a url''"
    by code_simp
  have p: "cell_trim malformed_entry ''gsx$phone'' = Inr ''555-1234''"
    by code_simp
  have m: "cell_trim malformed_entry ''gsx$email'' = Inr ''not-an-email''"
    by code_simp
  have z: "cell_trim malformed_entry ''gsx$timezone'' = Inr ''Europe/Rome''"
    by code_simp
  have x: "cell_array malformed_entry ''gsx$times'' (CHR 0x0A) = Inr [''domenica 7:00 pm'', ''!!!'']"
    by code_simp
  have h: "hostname (demo_env []) ''not a url'' = None"
    by code_simp
  have v: "\<not> validateEmail ''not-an-email''"
    by code_simp
  have d: "filter isDigit ''555-1234'' = ''5551234''"
    by code_simp
  have f: "filter (\<lambda>t. moment_tz (demo_env []) t ''Europe/Rome'' = None) [''domenica 7:00 pm'', ''!!!''] = [''!!!'']"
    by code_simp
  have n: "toString 5 = ''5''"
    by code_simp
  obtain ws r where r: "row (demo_env []) 3 malformed_entry = (ws, Inr r)"
    using row_total [OF well_formed_demo] unfolding malformed_entry_def by blast
  from warning_lines [OF r u p m z x] have
    "ws = [''Row 5: '' @ ldquo @ ''not a url'' @ rdquo @ '' is not a valid URL.'',
            ''Row 5: '' @ ldquo @ ''555-1234'' @ rdquo @ '' is not a valid phone number.'',
            ''Row 5: '' @ ldquo @ ''not-an-email'' @ rdquo @ '' is not a valid email address.'',
            ''Row 5: '' @ ldquo @ ''!!!'' @ rdquo @ '' is not a valid time.'']"
    by (simp add: h v d f n del: filter.simps)
  with u h v r show ?thesis by blast
qed

text \<open>C9 as the specification words it fails on the quotation marks: for a feed of one row
  with the URL \<^verbatim>\<open>not a url\<close>, the one console line has the value between the marks U+201C
  and U+201D (three bytes each in UTF-8), not between two ASCII double quotes (code 0x22).\<close>

theorem warning_quotes_counterexample:
  "fst (load (demo_env []) [demo_entry [(''gsx$url'', ''not a url'')]]) =
     [''Row 2: '' @ [CHR 0xE2, CHR 0x80, CHR 0x9C] @ ''not a url'' @ [CHR 0xE2, CHR 0x80, CHR 0x9D] @
        '' is not a valid URL.''] \<and>
   fst (load (demo_env []) [demo_entry [(''gsx$url'', ''not a url'')]]) \<noteq>
     [''Row 2: '' @ [CHR 0x22] @ ''not a url'' @ [CHR 0x22] @ '' is not a valid URL.'']"
  by code_simp

text \<open>C5. Take a pass that completes, for a row whose trimmed phone number is not empty, and
  let \<open>digits\<close> be its digits. If there are at most eight, no meeting of the row has a phone
  button, and exactly one console line of the pass is a warning about a phone number: the
  one for this phone number. If there are more than eight, every meeting of the row has
  exactly one phone button; it dials \<^verbatim>\<open>tel:\<close> followed by the target, which is the digits,
  followed by two commas and the trimmed access code when that is not empty; and no
  console line is a warning about a phone number.\<close>

theorem phone_button:
  assumes "row env i e = (ws, Inr r)"
    and "cell_trim e ''gsx$phone'' = Inr phone"
    and "phone \<noteq> []"
    and "digits = filter isDigit phone"
  shows "(length digits \<le> 8 \<longrightarrow>
            (\<forall>m\<in>set (pushed_meetings r). filter (\<lambda>b. icon b = Phone) (buttons m) = []) \<and>
            filter (\<lambda>w. \<exists>v. w = warn v ''phone number'' i) ws = [warn phone ''phone number'' i]) \<and>
         (length digits > 8 \<longrightarrow>
            (\<exists>code target.
               cell_trim e ''gsx$accesscode'' = Inr code \<and>
               target = (if code \<noteq> [] then digits @ '',,'' @ code else digits) \<and>
               (\<forall>m\<in>set (pushed_meetings r).
                  filter (\<lambda>b. icon b = Phone) (buttons m) =
                    [\<lparr>icon = Phone, onClick = WindowOpen (''tel:'' @ target) None,
                      label = ''Telefono'', title = ''Chiama '' @ target\<rparr>]) \<and>
               filter (\<lambda>w. \<exists>v. w = warn v ''phone number'' i) ws = []))"
proof -
  from row_Inr [OF assms(1)] assms(2) obtain url b2 w2 em zone exprs where
    p: "handle_phone i e phone = Inr (b2, w2)"
    and u: "cell_trim e ''gsx$url'' = Inr url"
    and m: "cell_trim e ''gsx$email'' = Inr em"
    and z: "cell_trim e ''gsx$timezone'' = Inr zone"
    and x: "cell_array e ''gsx$times'' (CHR 0x0A) = Inr exprs"
    by auto
  have bs: "filter (\<lambda>b. icon b = Phone) (buttons m) = filter (\<lambda>b. icon b = Phone) b2"
    if "m \<in> set (pushed_meetings r)" for m
  proof -
    from row_pushed [OF assms(1) that] assms(2) p u m
    have "buttons m = fst (handle_url env i url) @ b2 @ fst (handle_email i em)"
      by auto
    then show ?thesis
      using handle_url_icon [of _ env i url] handle_email_icon [of _ i em]
      by (simp add: filter_empty_conv)
  qed
  have k: "filter (\<lambda>w. \<exists>v. w = warn v ''phone number'' i) ws =
    (if length digits \<le> 8 then [warn phone ''phone number'' i] else [])"
    unfolding row_console [OF assms(1) u assms(2) m z x]
    using assms(3,4) by (auto simp: other_warning filter_empty_conv)
  show ?thesis
    using handle_phone_buttons [OF p] assms(3,4) bs k
    by auto
qed


text \<open>C5 on the two sample rows: \<^verbatim>\<open>555-1234\<close>, and \<^verbatim>\<open>555-123-4567\<close> with the access code
  \<^verbatim>\<open>9876\<close>.\<close>

theorem phone_button_witness:
  "cell_trim short_phone_entry ''gsx$phone'' = Inr ''555-1234'' \<and>
   filter isDigit ''555-1234'' = ''5551234'' \<and>
   (\<exists>ws r m. row (demo_env []) 0 short_phone_entry = (ws, Inr r) \<and> pushed_meetings r = [m] \<and>
      filter (\<lambda>b. icon b = Phone) (buttons m) = [] \<and>
      filter (\<lambda>w. \<exists>v. w = warn v ''phone number'' 0) ws = [warn ''555-1234'' ''phone number'' 0]) \<and>
   cell_trim long_phone_entry ''gsx$phone'' = Inr ''555-123-4567'' \<and>
   cell_trim long_phone_entry ''gsx$accesscode'' = Inr ''9876'' \<and>
   filter isDigit ''555-123-4567'' = ''5551234567'' \<and>
   (\<exists>ws r m. row (demo_env []) 1 long_phone_entry = (ws, Inr r) \<and> pushed_meetings r = [m] \<and>
      filter (\<lambda>b. icon b = Phone) (buttons m) =
        [\<lparr>icon = Phone, onClick = WindowOpen ''tel:5551234567,,9876'' None,
          label = ''Telefono'', title = ''Chiama 5551234567,,9876''\<rparr>])"
proof -
  have p1: "cell_trim short_phone_entry ''gsx$phone'' = Inr ''555-1234''"
    by code_simp
  have d1: "''5551234'' = filter isDigit ''555-1234''"
    by code_simp
  have x1: "cell_array short_phone_entry ''gsx$times'' (CHR 0x0A) = Inr []"
    by code_simp
  have z1: "cell_trim short_phone_entry ''gsx$timezone'' = Inr []"
    by code_simp
  obtain ws1 r1 where r1: "row (demo_env []) 0 short_phone_entry = (ws1, Inr r1)"
    using row_total [OF well_formed_demo] unfolding short_phone_entry_def by blast
  from row_times [OF r1 x1 z1] obtain m1 where m1: "pushed_meetings r1 = [m1]"
    by auto
  from phone_button [OF r1 p1 _ d1] m1
  have c1: "filter (\<lambda>b. icon b = Phone) (buttons m1) = [] \<and>
      filter (\<lambda>w. \<exists>v. w = warn v ''phone number'' 0) ws1 = [warn ''555-1234'' ''phone number'' 0]"
    by simp
  have p2: "cell_trim long_phone_entry ''gsx$phone'' = Inr ''555-123-4567''"
    by code_simp
  have a2: "cell_trim long_phone_entry ''gsx$accesscode'' = Inr ''9876''"
    by code_simp
  have d2: "''5551234567'' = filter isDigit ''555-123-4567''"
    by code_simp
  have x2: "cell_array long_phone_entry ''gsx$times'' (CHR 0x0A) = Inr []"
    by code_simp
  have z2: "cell_trim long_phone_entry ''gsx$timezone'' = Inr []"
    by code_simp
  obtain ws2 r2 where r2: "row (demo_env []) 1 long_phone_entry = (ws2, Inr r2)"
    using row_total [OF well_formed_demo] unfolding long_phone_entry_def by blast
  from row_times [OF r2 x2 z2] obtain m2 where m2: "pushed_meetings r2 = [m2]"
    by auto
  from phone_button [OF r2 p2 _ d2] m2 a2
  have c2: "filter (\<lambda>b. icon b = Phone) (buttons m2) =
        [\<lparr>icon = Phone, onClick = WindowOpen ''tel:5551234567,,9876'' None,
          label = ''Telefono'', title = ''Chiama 5551234567,,9876''\<rparr>]"
    by simp
  from p1 d1 [symmetric] r1 m1 c1 p2 a2 d2 [symmetric] r2 m2 c2 show ?thesis
    by blast
qed

subsection \<open>The search index\<close>

text \<open>Splitting: at a predicate that singles out one character; the pieces; the characters
  of a joined list.\<close>

lemma split_where_eq: "\<forall>c\<in>set s. P c \<longleftrightarrow> c = sep \<Longrightarrow> split_where P s = split sep s"
  by (induction s) auto

lemma split_pieces: "p \<in> set (split sep s) \<Longrightarrow> sep \<notin> set p \<and> set p \<subseteq> set s"
proof (induction s arbitrary: p)
  case Nil
  then show ?case by simp
next
  case (Cons c s)
  show ?case
  proof (cases "c = sep")
    case True
    with Cons show ?thesis by auto
  next
    case False
    obtain q qs where q: "split sep s = q # qs"
      using split_not_Nil [of sep s] by (cases "split sep s") auto
    with Cons.prems False have "p = c # q \<or> p \<in> set qs" by auto
    then show ?thesis
      using Cons.IH [of q] Cons.IH [of p] q False by auto
  qed
qed

lemma set_join: "set (join sep ws) \<subseteq> set sep \<union> \<Union> (set ` set ws)"
  by (induction sep ws rule: join.induct) auto

text \<open>Words without a space, joined by single spaces, have no double space and neither
  start nor end with a space.\<close>

lemma no_space_double: "CHR '' '' \<notin> set x \<Longrightarrow> \<not> double_space x"
  by (induction x rule: double_space.induct) auto

lemma double_space_append:
  assumes "CHR '' '' \<notin> set x" and "x \<noteq> []" and "rest \<noteq> []" and "hd rest \<noteq> CHR '' ''"
    and "\<not> double_space rest"
  shows "\<not> double_space (x @ CHR '' '' # rest)"
  using assms
proof (induction x rule: double_space.induct)
  case 1
  then show ?case by simp
next
  case (2 a)
  then show ?case by (cases rest) auto
next
  case (3 a b cs)
  then show ?case by auto
qed

lemma join_words:
  assumes "\<forall>w\<in>set ws. w \<noteq> [] \<and> CHR '' '' \<notin> set w"
  shows "\<not> double_space (join '' '' ws) \<and>
         (ws \<noteq> [] \<longrightarrow> join '' '' ws \<noteq> [] \<and> hd (join '' '' ws) \<noteq> CHR '' '' \<and> last (join '' '' ws) \<noteq> CHR '' '')"
  using assms
proof (induction "'' ''" ws rule: join.induct)
  case 1
  then show ?case by simp
next
  case (2 x)
  then have "x \<noteq> []" "CHR '' '' \<notin> set x" by auto
  moreover from this have "hd x \<noteq> CHR '' ''" "last x \<noteq> CHR '' ''"
    by (metis hd_in_set, metis last_in_set)
  ultimately show ?case
    by (simp add: no_space_double)
next
  case (3 x y ys)
  then have r: "\<not> double_space (join '' '' (y # ys))" "join '' '' (y # ys) \<noteq> []"
    "hd (join '' '' (y # ys)) \<noteq> CHR '' ''" "last (join '' '' (y # ys)) \<noteq> CHR '' ''"
    by auto
  from 3(2) have x: "x \<noteq> []" "CHR '' '' \<notin> set x" by auto
  from double_space_append [OF x(2,1) r(2,3,1)] x r show ?case
    by (cases x) auto
qed

text \<open>Splitting and joining at one character are inverse to each other on pieces without
  that character.\<close>

lemma join_split: "join [sep] (split sep s) = s"
proof (induction s)
  case Nil
  then show ?case by simp
next
  case (Cons c s)
  obtain q qs where q: "split sep s = q # qs"
    using split_not_Nil [of sep s] by (cases "split sep s") auto
  with Cons show ?case
    by (cases qs) auto
qed

lemma split_append: "sep \<notin> set x \<Longrightarrow> split sep (x @ sep # r) = x # split sep r"
  by (induction x) auto

lemma split_join:
  assumes "ws \<noteq> []" and "\<forall>w\<in>set ws. sep \<notin> set w"
  shows "split sep (join [sep] ws) = ws"
  using assms
proof (induction "[sep]" ws rule: join.induct)
  case 1
  then show ?case by simp
next
  case (2 x)
  then show ?case by (simp add: split_no_sep)
next
  case (3 x y ys)
  then show ?case by (simp add: split_append)
qed

text \<open>The lower case of the examples: a lower-case letter is left alone and is not a space;
  every other character is left alone or goes to a lower-case letter. So this lower-casing
  is idempotent, goes word by word through a text joined by spaces, and adds no space.\<close>

lemma lower_letters:
  "list_all (\<lambda>l. demo_toLowerCase_char l = l \<and> l \<noteq> CHR '' '') ''abcdefghijklmnopqrstuvwxyz''"
  by code_simp

lemma lower_letter:
  "l \<in> set ''abcdefghijklmnopqrstuvwxyz'' \<Longrightarrow> demo_toLowerCase_char l = l \<and> l \<noteq> CHR '' ''"
  using lower_letters unfolding list_all_iff by blast

lemma lower_cases:
  "demo_toLowerCase_char c = c \<or> demo_toLowerCase_char c \<in> set ''abcdefghijklmnopqrstuvwxyz''"
  unfolding demo_toLowerCase_char_def
  by (auto split: option.splits dest!: map_of_SomeD set_zip_rightD)

lemma lower_idem: "demo_toLowerCase_char (demo_toLowerCase_char c) = demo_toLowerCase_char c"
  using lower_cases [of c] lower_letter [of "demo_toLowerCase_char c"] by auto

lemma lower_space: "demo_toLowerCase_char c = CHR '' '' \<Longrightarrow> c = CHR '' ''"
  using lower_cases [of c] lower_letter [of "demo_toLowerCase_char c"] by auto

lemma lower_blank: "demo_toLowerCase_char CHR '' '' = CHR '' ''"
  by (simp add: demo_toLowerCase_char_def)

lemma demo_lower_idem: "demo_toLowerCase (demo_toLowerCase s) = demo_toLowerCase s"
  by (simp add: demo_toLowerCase_def lower_idem)

lemma demo_lower_join:
  "demo_toLowerCase (join '' '' words) = join '' '' (map demo_toLowerCase words)"
  by (induction "'' ''" words rule: join.induct) (simp_all add: demo_toLowerCase_def lower_blank)

lemma demo_lower_no_space: "CHR '' '' \<notin> set s \<Longrightarrow> CHR '' '' \<notin> set (demo_toLowerCase s)"
  by (auto simp: demo_toLowerCase_def dest: lower_space [OF sym])

text \<open>The search index is a join of words. It is its own lower case when lower-casing is
  idempotent, goes word by word through a text joined by spaces, and adds no space.\<close>

lemma search_index_words:
  "\<forall>w\<in>set (filter (\<lambda>e. e \<noteq> []) (split CHR '' '' s)). w \<noteq> [] \<and> CHR '' '' \<notin> set w"
  by (auto dest: split_pieces)

lemma search_index_lower:
  assumes idem: "\<And>s. lower (lower s) = lower s"
    and word: "\<And>words. lower (join '' '' words) = join '' '' (map lower words)"
    and space: "\<And>s. CHR '' '' \<notin> set s \<Longrightarrow> CHR '' '' \<notin> set (lower s)"
  shows "lower (join '' '' (filter (\<lambda>e. e \<noteq> []) (split CHR '' '' (lower nm))))
           = join '' '' (filter (\<lambda>e. e \<noteq> []) (split CHR '' '' (lower nm)))"
proof -
  define ps where "ps = split CHR '' '' nm"
  have "lower nm = lower (join '' '' ps)"
    by (simp add: ps_def join_split)
  then have n: "lower nm = join '' '' (map lower ps)"
    by (simp add: word)
  have "\<forall>w\<in>set (map lower ps). CHR '' '' \<notin> set w"
    using split_pieces [of _ "CHR '' ''" nm] space by (auto simp: ps_def)
  moreover have "map lower ps \<noteq> []"
    by (simp add: ps_def split_not_Nil)
  ultimately have q: "split CHR '' '' (lower nm) = map lower ps"
    unfolding n by (rule split_join [rotated])
  have "map lower (filter (\<lambda>e. e \<noteq> []) (map lower ps)) = filter (\<lambda>e. e \<noteq> []) (map lower ps)"
    by (rule map_idI) (auto simp: idem)
  then show ?thesis
    by (simp add: q word)
qed

text \<open>C8, as the code has it. The search string of every meeting pushed for a row is the name
  of the meeting in lower case, split at the space character (not at other white space),
  with the empty pieces dropped and the rest joined by single spaces. Consequently it has
  no double space and neither starts nor ends with a space. It is its own lower case, for
  a lower-casing that is idempotent, goes word by word through a text joined by spaces
  and adds no space, as that of the runtime does. For every class of white-space
  characters that has the space, when the space is the only character of the class in
  the lower case of the name, it is the string the specification describes.\<close>

theorem search_string:
  assumes "row env i e = (ws, Inr r)" and "m \<in> set (pushed_meetings r)"
  shows "search m = join '' '' (filter (\<lambda>w. w \<noteq> []) (split CHR '' '' (toLowerCase env (name m)))) \<and>
         \<not> double_space (search m) \<and>
         (search m \<noteq> [] \<longrightarrow> hd (search m) \<noteq> CHR '' '' \<and> last (search m) \<noteq> CHR '' '') \<and>
         ((\<forall>s. toLowerCase env (toLowerCase env s) = toLowerCase env s) \<and>
          (\<forall>words. toLowerCase env (join '' '' words) = join '' '' (map (toLowerCase env) words)) \<and>
          (\<forall>s. CHR '' '' \<notin> set s \<longrightarrow> CHR '' '' \<notin> set (toLowerCase env s))
            \<longrightarrow> toLowerCase env (search m) = search m) \<and>
         (\<forall>white. white CHR '' '' \<and> (\<forall>c\<in>set (toLowerCase env (name m)). white c \<longrightarrow> c = CHR '' '')
            \<longrightarrow> search m = spec_search white (toLowerCase env) (name m))"
proof -
  define low where "low = toLowerCase env (name m)"
  from row_pushed [OF assms] have s: "search m = join '' '' (filter (\<lambda>w. w \<noteq> []) (split CHR '' '' low))"
    by (auto simp: search_index_def low_def)
  have "search m \<noteq> [] \<longrightarrow> filter (\<lambda>e. e \<noteq> []) (split CHR '' '' low) \<noteq> []"
    by (auto simp: s)
  with join_words [OF search_index_words, of low]
  have j: "\<not> double_space (search m) \<and>
        (search m \<noteq> [] \<longrightarrow> hd (search m) \<noteq> CHR '' '' \<and> last (search m) \<noteq> CHR '' '')"
    by (auto simp: s)
  have l: "toLowerCase env (search m) = search m"
    if "\<forall>s. toLowerCase env (toLowerCase env s) = toLowerCase env s"
      and "\<forall>words. toLowerCase env (join '' '' words) = join '' '' (map (toLowerCase env) words)"
      and "\<forall>s. CHR '' '' \<notin> set s \<longrightarrow> CHR '' '' \<notin> set (toLowerCase env s)"
    unfolding s low_def using that by (intro search_index_lower) auto
  have w: "search m = spec_search white (toLowerCase env) (name m)"
    if "white CHR '' ''" and "\<forall>c\<in>set low. white c \<longrightarrow> c = CHR '' ''" for white
  proof -
    from that have "split_where white low = split CHR '' '' low"
      by (intro split_where_eq) blast
    then show ?thesis
      by (simp add: s spec_search_def low_def)
  qed
  from s j l w show ?thesis
    unfolding low_def by blast
qed

text \<open>C8 on the sample row named \<^verbatim>\<open>  Serenity   NOW \<close>, with the lower case of the examples
  and the white space of ASCII.\<close>

theorem search_string_witness:
  "\<exists>ws r m. row (demo_env []) 0 spaced_entry = (ws, Inr r) \<and> pushed_meetings r = [m] \<and>
     name m = ''Serenity   NOW'' \<and> search m = ''serenity now'' \<and>
     \<not> double_space (search m) \<and>
     hd (search m) \<noteq> CHR '' '' \<and> last (search m) \<noteq> CHR '' '' \<and>
     toLowerCase (demo_env []) (search m) = search m \<and>
     search m = spec_search isWhiteSpace (toLowerCase (demo_env [])) (name m)"
proof -
  have n: "cell_trim spaced_entry ''gsx$name'' = Inr ''Serenity   NOW''"
    by code_simp
  have x: "cell_array spaced_entry ''gsx$times'' (CHR 0x0A) = Inr []"
    by code_simp
  have z: "cell_trim spaced_entry ''gsx$timezone'' = Inr []"
    by code_simp
  have d: "toLowerCase (demo_env []) = demo_toLowerCase"
    by (simp add: demo_env_def)
  have v: "join '' '' (filter (\<lambda>w. w \<noteq> []) (split CHR '' '' (demo_toLowerCase ''Serenity   NOW''))) = ''serenity now''"
    by code_simp
  have w: "isWhiteSpace CHR '' '' \<and>
      (\<forall>c\<in>set (demo_toLowerCase ''Serenity   NOW''). isWhiteSpace c \<longrightarrow> c = CHR '' '')"
    by code_simp
  obtain ws r where r: "row (demo_env []) 0 spaced_entry = (ws, Inr r)"
    using row_total [OF well_formed_demo] unfolding spaced_entry_def by blast
  from row_times [OF r x z] obtain m where m: "pushed_meetings r = [m]"
    by auto
  from row_pushed [OF r, of m] m n have nm: "name m = ''Serenity   NOW''"
    by auto
  have mem: "m \<in> set (pushed_meetings r)"
    using m by simp
  from search_string [OF r mem] nm v w demo_lower_idem demo_lower_join demo_lower_no_space
  have "search m = ''serenity now'' \<and>
     \<not> double_space (search m) \<and>
     hd (search m) \<noteq> CHR '' '' \<and> last (search m) \<noteq> CHR '' '' \<and>
     toLowerCase (demo_env []) (search m) = search m \<and>
     search m = spec_search isWhiteSpace (toLowerCase (demo_env [])) (name m)"
    unfolding d by auto
  with r m nm show ?thesis by blast
qed

text \<open>C8 as the specification words it fails: a row whose name has a line break between two
  words is loaded into a meeting whose search string keeps the line break, where
  splitting at white space gives the two words joined by a space.\<close>

theorem search_line_break_counterexample:
  "(case snd (load (demo_env []) [line_break_entry]) of
      Inl err \<Rightarrow> False
    | Inr st \<Rightarrow> map name (meetings st) = [''Serenity'' @ [CHR 0x0A] @ ''Now''] \<and>
               map search (meetings st) = [''serenity'' @ [CHR 0x0A] @ ''now'']) \<and>
   spec_search isWhiteSpace (toLowerCase (demo_env [])) (''Serenity'' @ [CHR 0x0A] @ ''Now'')
     = ''serenity now''"
  by code_simp

subsection \<open>The query string, and the label of a link\<close>

text \<open>The query is read pair by pair; a pair whose key is not a filter category does not
  change the state.\<close>

lemma read_query_pairs:
  "read_query env =
     each_pair (decodeURIComponent env)
       (if length (location_search env) > 1 then split CHR ''&'' (drop 1 (location_search env)) else [])
       Map.empty"
  by (simp add: read_query_def)

lemma load_search:
  assumes "snd (load env es) = Inr st"
    and "snd (load (env\<lparr>location_search := s'\<rparr>) es) = Inr st'"
    and "(if length (location_search env) > 1 then split CHR ''&'' (drop 1 (location_search env)) else [])
           = ps @ p # ps'"
    and "(if length s' > 1 then split CHR ''&'' (drop 1 s') else []) = ps @ ps'"
    and "hd (split CHR ''='' p) \<notin> {''days'', ''formats'', ''types''}"
  shows "st' = st"
proof -
  from assms(1) obtain vars query where
    l: "loop env 0 es \<lparr>var_meetings = [], var_formats = [], var_types = [], console = []\<rparr> = (vars, None)"
    and q: "read_query env = Inr query"
    and st: "st = \<lparr>filters =
                       [''days'' \<mapsto> arrayToTagsArray (days env) (preselected query ''days''),
                        ''formats'' \<mapsto>
                          arrayToTagsArray (sort (var_formats vars)) (preselected query ''formats''),
                        ''types'' \<mapsto>
                          arrayToTagsArray (sort (var_types vars)) (preselected query ''types'')],
                     limit = meetingsPerPage env,
                     loading = False,
                     meetings = var_meetings vars,
                     state_search = [],
                     timezone = tz_guess env\<rparr>"
    unfolding load_Inr by blast
  from assms(2) l obtain query' where
    q': "read_query (env\<lparr>location_search := s'\<rparr>) = Inr query'"
    and st': "st' = \<lparr>filters =
                       [''days'' \<mapsto> arrayToTagsArray (days env) (preselected query' ''days''),
                        ''formats'' \<mapsto>
                          arrayToTagsArray (sort (var_formats vars)) (preselected query' ''formats''),
                        ''types'' \<mapsto>
                          arrayToTagsArray (sort (var_types vars)) (preselected query' ''types'')],
                     limit = meetingsPerPage env,
                     loading = False,
                     meetings = var_meetings vars,
                     state_search = [],
                     timezone = tz_guess env\<rparr>"
    unfolding load_Inr by (auto simp: loop_search)
  from q assms(3) have 1: "each_pair (decodeURIComponent env) (ps @ p # ps') Map.empty = Inr query"
    by (simp add: read_query_pairs)
  from q' assms(4) have 2: "each_pair (decodeURIComponent env) (ps @ ps') Map.empty = Inr query'"
    by (simp add: read_query_pairs cong: if_cong)
  have "query c = query' c" if "c \<in> {''days'', ''formats'', ''types''}" for c
    using each_pair_skip [OF 1 2, of c] that assms(5) by auto
  then have "preselected query ''days'' = preselected query' ''days''"
    "preselected query ''formats'' = preselected query' ''formats''"
    "preselected query ''types'' = preselected query' ''types''"
    by (simp_all add: preselected_def)
  with st st' show ?thesis by simp
qed

text \<open>A well-formed feed is loaded when every pair of the query string has an equals sign
  and every item of its value decodes; no feed is loaded when some pair has none.\<close>

lemma load_query_total:
  assumes "\<forall>e\<in>set es. well_formed e"
    and "length (location_search env) > 1 \<longrightarrow>
           (\<forall>p\<in>set (split CHR ''&'' (drop 1 (location_search env))).
              CHR ''='' \<in> set p \<and>
              (\<forall>x\<in>set (split CHR '','' (split CHR ''='' p ! 1)). decodeURIComponent env x \<noteq> None))"
  shows "\<exists>st. snd (load env es) = Inr st"
proof -
  have "\<exists>query. read_query env = Inr query"
  proof (cases "length (location_search env) > 1")
    case True
    with assms(2) each_pair_total [of "split CHR ''&'' (drop 1 (location_search env))" "decodeURIComponent env" Map.empty]
    show ?thesis
      by (simp add: read_query_def)
  next
    case False
    then show ?thesis
      by (simp add: read_query_def)
  qed
  with load_total [OF assms(1), of env] show ?thesis
    by auto
qed

lemma load_query_fail:
  assumes "length (location_search env) > 1"
    and "p \<in> set (split CHR ''&'' (drop 1 (location_search env)))"
    and "CHR ''='' \<notin> set p"
  shows "\<exists>err. snd (load env es) = Inl err"
proof -
  from each_pair_fail [OF assms(2,3), of "decodeURIComponent env" Map.empty] assms(1)
  obtain err where "read_query env = Inl err"
    by (auto simp: read_query_def)
  then show ?thesis
    by (cases "snd (load env es)") (auto simp: load_Inr)
qed

text \<open>C10, as the code has it.
  \<^item> For a feed of well-formed rows and a query string in which every pair has an equals
    sign and every item of the value after it decodes (an empty value has the one item
    \<^verbatim>\<open>''\<close>), \<^verbatim>\<open>load\<close> returns a state; so it does when the query string has at most one
    character.
  \<^item> For a query string of more than one character in which some pair has no equals sign,
    \<^verbatim>\<open>load\<close> returns no state: it throws.
  \<^item> A pair whose key is not \<^verbatim>\<open>days\<close>, \<^verbatim>\<open>formats\<close> or \<^verbatim>\<open>types\<close> changes nothing: two
    query strings whose lists of pairs differ by one such pair give the same state.\<close>

theorem query_string:
  "((\<forall>e\<in>set es. well_formed e) \<and>
    (length (location_search env) > 1 \<longrightarrow>
       (\<forall>p\<in>set (split CHR ''&'' (drop 1 (location_search env))).
          CHR ''='' \<in> set p \<and>
          (\<forall>x\<in>set (split CHR '','' (split CHR ''='' p ! 1)). decodeURIComponent env x \<noteq> None)))
      \<longrightarrow> (\<exists>st. snd (load env es) = Inr st)) \<and>
   (length (location_search env) > 1 \<and>
    (\<exists>p\<in>set (split CHR ''&'' (drop 1 (location_search env))). CHR ''='' \<notin> set p)
      \<longrightarrow> (\<exists>err. snd (load env es) = Inl err)) \<and>
   (snd (load env es) = Inr st \<and>
    snd (load (env\<lparr>location_search := s'\<rparr>) es) = Inr st' \<and>
    (if length (location_search env) > 1 then split CHR ''&'' (drop 1 (location_search env)) else [])
       = ps @ p # ps' \<and>
    (if length s' > 1 then split CHR ''&'' (drop 1 s') else []) = ps @ ps' \<and>
    hd (split CHR ''='' p) \<notin> {''days'', ''formats'', ''types''}
      \<longrightarrow> st' = st)"
  using load_query_total [of es env] load_query_fail [of env _ es] load_search [of env es st s' st' ps p ps']
  by blast

text \<open>C10 on the sample feed: a query string with an unknown key and an empty value, the
  same without the unknown key, and one with a pair that has no equals sign.\<close>

theorem query_string_witness:
  "(\<exists>st. snd (load (demo_env ''?formats=foo,bar&x=1&types='') vocabulary_feed) = Inr st) \<and>
   (\<exists>err. snd (load (demo_env ''?formats=foo&bar'') vocabulary_feed) = Inl err) \<and>
   (\<exists>st st'. snd (load (demo_env ''?formats=foo,bar&x=1&types='') vocabulary_feed) = Inr st \<and>
      snd (load (demo_env ''?formats=foo,bar&types='') vocabulary_feed) = Inr st' \<and> st' = st)"
proof -
  have w: "\<forall>e\<in>set vocabulary_feed. well_formed e"
    by (simp add: vocabulary_feed_def well_formed_demo)
  have s1: "split CHR ''&'' (drop 1 ''?formats=foo,bar&x=1&types='') = [''formats=foo,bar''] @ ''x=1'' # [''types='']"
    by code_simp
  have s2: "split CHR ''&'' (drop 1 ''?formats=foo,bar&types='') = [''formats=foo,bar''] @ [''types='']"
    by code_simp
  have s3: "split CHR ''&'' (drop 1 ''?formats=foo&bar'') = [''formats=foo'', ''bar'']"
    by code_simp
  have k: "hd (split CHR ''='' ''x=1'') \<notin> {''days'', ''formats'', ''types''}"
    by code_simp
  have d: "list_all (\<lambda>p. CHR ''='' \<in> set p \<and>
              list_all (\<lambda>x. demo_decode x \<noteq> None) (split CHR '','' (split CHR ''='' p ! 1)))
             [''formats=foo,bar'', ''x=1'', ''types='']"
    by code_simp
  have e: "demo_env q\<lparr>location_search := s\<rparr> = demo_env s" for q s
    by (simp add: demo_env_def)
  have l: "location_search (demo_env q) = q" "decodeURIComponent (demo_env q) = demo_decode" for q
    by (simp_all add: demo_env_def)
  from query_string [of vocabulary_feed "demo_env ''?formats=foo,bar&x=1&types=''", THEN conjunct1] w d
  have "\<exists>st. snd (load (demo_env ''?formats=foo,bar&x=1&types='') vocabulary_feed) = Inr st"
    unfolding l s1 list_all_iff by simp
  then obtain st where st: "snd (load (demo_env ''?formats=foo,bar&x=1&types='') vocabulary_feed) = Inr st" ..
  from query_string [of vocabulary_feed "demo_env ''?formats=foo,bar&types=''", THEN conjunct1] w d
  have "\<exists>st. snd (load (demo_env ''?formats=foo,bar&types='') vocabulary_feed) = Inr st"
    unfolding l s2 list_all_iff by simp
  then obtain st' where st': "snd (load (demo_env ''?formats=foo,bar&types='') vocabulary_feed) = Inr st'" ..
  from query_string [of vocabulary_feed "demo_env ''?formats=foo&bar''", THEN conjunct2, THEN conjunct1]
  have f: "\<exists>err. snd (load (demo_env ''?formats=foo&bar'') vocabulary_feed) = Inl err"
    unfolding l s3 by simp
  from query_string [of vocabulary_feed "demo_env ''?formats=foo,bar&x=1&types=''" st
      "''?formats=foo,bar&types=''" st' "[''formats=foo,bar'']" "''x=1''" "[''types='']",
      THEN conjunct2, THEN conjunct2] st st' k
  have "st' = st"
    unfolding l e s1 s2 by simp
  with st st' f show ?thesis by blast
qed

text \<open>C10 as it is worded fails: with the query string \<^verbatim>\<open>?formats=foo&bar\<close>, whose second pair
  has no equals sign, \<^verbatim>\<open>load\<close> throws a TypeError on a well-formed feed.\<close>

theorem query_pair_counterexample:
  "list_all well_formed vocabulary_feed \<and>
   (case snd (load (demo_env ''?formats=foo&bar'') vocabulary_feed) of
      Inl err \<Rightarrow> err = TypeError
    | Inr st \<Rightarrow> False)"
  by code_simp

text \<open>
  The button of a URL that parses, for any table of video services: the label is the
  first service of the table one of whose domains ends the host name, with the video icon;
  without such a service the icon is the link and the label is the host name with its
  first \<^verbatim>\<open>www.\<close> removed. That is the host name without a leading \<^verbatim>\<open>www.\<close> when the
  host name starts with \<^verbatim>\<open>www.\<close>, or has no \<^verbatim>\<open>www.\<close> at all.
\<close>

lemma url_button:
  assumes "u \<noteq> []" and "hostname env u = Some host"
    and "matching = filter (\<lambda>(service, domains). \<exists>domain\<in>set domains. endsWith host domain) (videoServices env)"
  shows "\<exists>b. handle_url env i u = ([b], []) \<and>
           onClick b = WindowOpen u (Some ''_blank'') \<and> title b = ''Visita '' @ u \<and>
           (matching \<noteq> [] \<longrightarrow> icon b = Video \<and> label b = fst (hd matching)) \<and>
           (matching = [] \<longrightarrow> icon b = Link \<and> label b = replace ''www.'' [] host)"
proof -
  have "filter (\<lambda>(service, domains). filter (\<lambda>domain. endsWith host domain) domains \<noteq> [])
          (videoServices env) = matching"
    unfolding assms(3) by (rule filter_cong) (auto simp: filter_empty_conv)
  then show ?thesis
    using assms(1,2) by (cases matching) (auto simp: handle_url_def Let_def)
qed

lemma replace_leading: "take (length pat) s = pat \<Longrightarrow> replace pat rep s = rep @ drop (length pat) s"
  by (cases s) auto

lemma replace_absent: "\<forall>ys zs. s \<noteq> ys @ pat @ zs \<Longrightarrow> replace pat rep s = s"
proof (induction s)
  case Nil
  then show ?case by auto
next
  case (Cons c s)
  have "take (length pat) (c # s) \<noteq> pat"
  proof
    assume "take (length pat) (c # s) = pat"
    then have "c # s = [] @ pat @ drop (length pat) (c # s)"
      by (metis append_Nil append_take_drop_id)
    with Cons.prems show False by blast
  qed
  moreover have "\<forall>ys zs. s \<noteq> ys @ pat @ zs"
  proof (intro allI notI)
    fix ys zs
    assume "s = ys @ pat @ zs"
    then have "c # s = (c # ys) @ pat @ zs" by simp
    with Cons.prems show False by blast
  qed
  ultimately show ?case
    using Cons.IH by simp
qed

lemma replace_www:
  assumes "take 4 host = ''www.'' \<or> (\<forall>ys zs. host \<noteq> ys @ ''www.'' @ zs)"
  shows "replace ''www.'' [] host = strip_leading_www host"
proof (cases "take 4 host = ''www.''")
  case True
  then show ?thesis
    using replace_leading [of "''www.''" host "[]"] by (simp add: strip_leading_www_def eval_nat_numeral)
next
  case False
  with assms replace_absent [of host "''www.''" "[]"] show ?thesis
    by (simp add: strip_leading_www_def)
qed

text \<open>C6 at the URL \<^verbatim>\<open>https://my.www.example.org/\<close>, whose host matches no video service and
  does not start with \<^verbatim>\<open>www.\<close>: stripping a leading \<^verbatim>\<open>www.\<close> only, as the specification
  has it, gives the label \<^verbatim>\<open>my.www.example.org\<close>, the host as it is; the code gives \<^verbatim>\<open>my.example.org\<close>, because \<^verbatim>\<open>replace('www.', '')\<close> removes the
  first \<^verbatim>\<open>www.\<close> wherever it stands.\<close>

theorem interior_www_label:
  "hostname (demo_env []) ''https://my.www.example.org/'' = Some ''my.www.example.org'' \<and>
   strip_leading_www ''my.www.example.org'' = ''my.www.example.org'' \<and>
   map icon (fst (handle_url (demo_env []) 0 ''https://my.www.example.org/'')) = [Link] \<and>
   map label (fst (handle_url (demo_env []) 0 ''https://my.www.example.org/'')) = [''my.example.org'']"
  by code_simp

end
